theory Spec2Isabelle
  imports Complex_Main "HOL-Library.Log_Nat"
begin

section \<open>Python numbers\<close>

text \<open>
  The source mixes Python's unbounded integers (\<open>int\<close>) with its floats, which are
  IEEE 754 binary64 values. A finite float is modelled by the rational number it denotes,
  together with the two infinities and NaN. Every arithmetic operation rounds the exact
  result to the nearest binary64 value, ties to even (53 significant bits, least exponent
  of a normal number \<open>-1022\<close>, overflow from \<open>2 ^ 1024\<close> on). The sign of a zero is not
  kept: no operation of the source observes it.
\<close>

datatype error = OverflowError | ValueError | ZeroDivisionError

datatype pyfloat = Finite rat | Inf bool | NaN

definition pow2 :: "int \<Rightarrow> rat" where
  "pow2 e = 2 powi e"

text \<open>\<open>ilog2 x\<close> is the exponent \<open>e\<close> with \<open>2 ^ e \<le> \<bar>x\<bar> < 2 ^ (e + 1)\<close>, for \<open>x \<noteq> 0\<close>.\<close>

definition ilog2 :: "rat \<Rightarrow> int" where
  "ilog2 x =
     (let (p, q) = quotient_of \<bar>x\<bar>;
          d = bitlen p - bitlen q
      in if pow2 d \<le> \<bar>x\<bar> then d else d - 1)"

text \<open>Rounding to the nearest integer, ties to the even one.\<close>

definition round_half_even :: "rat \<Rightarrow> int" where
  "round_half_even x =
     (let f = \<lfloor>x\<rfloor>; r = x - of_int f
      in if r < 1 / 2 then f
         else if 1 / 2 < r then f + 1
         else if even f then f else f + 1)"

text \<open>
  \<open>fl x\<close> is the binary64 value nearest to the exact number \<open>x\<close>; an exact result
  that rounds to \<open>2 ^ 1024\<close> or beyond becomes an infinity of its sign.
\<close>

definition fl :: "rat \<Rightarrow> pyfloat" where
  "fl x =
     (if x = 0 then Finite 0
      else let e = max (ilog2 x) (- 1022);
               q = pow2 (e - 52);
               y = of_int (round_half_even (x / q)) * q
           in if pow2 1024 \<le> \<bar>y\<bar> then Inf (0 < x) else Finite y)"

text \<open>\<open>float * float\<close> and \<open>float + float\<close>: IEEE arithmetic, never raising.\<close>

fun fmul :: "pyfloat \<Rightarrow> pyfloat \<Rightarrow> pyfloat" where
  "fmul (Finite a) (Finite b) = fl (a * b)"
| "fmul NaN _ = NaN"
| "fmul _ NaN = NaN"
| "fmul (Inf s) (Finite b) = (if b = 0 then NaN else Inf (s = (0 < b)))"
| "fmul (Finite a) (Inf t) = (if a = 0 then NaN else Inf ((0 < a) = t))"
| "fmul (Inf s) (Inf t) = Inf (s = t)"

fun fadd :: "pyfloat \<Rightarrow> pyfloat \<Rightarrow> pyfloat" where
  "fadd (Finite a) (Finite b) = fl (a + b)"
| "fadd NaN _ = NaN"
| "fadd _ NaN = NaN"
| "fadd (Inf s) (Finite b) = Inf s"
| "fadd (Finite a) (Inf t) = Inf t"
| "fadd (Inf s) (Inf t) = (if s = t then Inf s else NaN)"

text \<open>
  Converting an \<open>int\<close> operand of a mixed operation to a float rounds it too and raises
  \<open>OverflowError\<close> when the integer is too large.
\<close>

definition float_of_int :: "int \<Rightarrow> error + pyfloat" where
  "float_of_int n =
     (case fl (of_int n) of Finite y \<Rightarrow> Inr (Finite y) | _ \<Rightarrow> Inl OverflowError)"

text \<open>\<open>int / int\<close>: the correctly rounded quotient of the two integers.\<close>

definition truediv :: "int \<Rightarrow> int \<Rightarrow> error + pyfloat" where
  "truediv a b =
     (if b = 0 then Inl ZeroDivisionError
      else case fl (of_int a / of_int b) of
             Finite y \<Rightarrow> Inr (Finite y)
           | _ \<Rightarrow> Inl OverflowError)"

text \<open>\<open>int * float\<close>: the integer is converted first.\<close>

definition int_mul_float :: "int \<Rightarrow> pyfloat \<Rightarrow> error + pyfloat" where
  "int_mul_float n x =
     (case float_of_int n of Inl e \<Rightarrow> Inl e | Inr y \<Rightarrow> Inr (fmul y x))"

text \<open>\<open>round(x)\<close> with one argument: nearest integer, ties to even.\<close>

fun py_round :: "pyfloat \<Rightarrow> error + int" where
  "py_round (Finite x) = Inr (round_half_even x)"
| "py_round (Inf _) = Inl OverflowError"
| "py_round NaN = Inl ValueError"

text \<open>\<open>int(x)\<close> of a float: truncation toward zero.\<close>

definition trunc :: "rat \<Rightarrow> int" where
  "trunc x = (if 0 \<le> x then \<lfloor>x\<rfloor> else \<lceil>x\<rceil>)"

fun py_int :: "pyfloat \<Rightarrow> error + int" where
  "py_int (Finite x) = Inr (trunc x)"
| "py_int (Inf _) = Inl OverflowError"
| "py_int NaN = Inl ValueError"

section \<open>ScreenConfig\<close>

text \<open>
  \<open>scale_factor = 0.5 + (scale_percent / 100) * 1.5\<close>, the first statement of
  \<open>calculate_resolution\<close> and the second of \<open>on_slider_change\<close>.
\<close>

definition scale_factor :: "int \<Rightarrow> error + pyfloat" where
  "scale_factor scale_percent =
     (case truediv scale_percent 100 of
        Inl e \<Rightarrow> Inl e
      | Inr q \<Rightarrow> Inr (fadd (Finite (1 / 2)) (fmul q (Finite (3 / 2)))))"


text \<open>
  The fields of a \<open>ScreenConfig\<close> object (\<open>id\<close>, \<open>x\<close> and \<open>y\<close> carry a prefix here).
  The constructor sets \<open>width = 1920\<close>, \<open>height = 1080\<close> and the colour of the id.
\<close>

record ScreenConfig =
  screen_id :: nat
  ratio_w :: int
  ratio_h :: int
  screen_x :: int
  screen_y :: int
  width :: int
  height :: int
  color :: string

definition colors :: "string list" where
  "colors = [''#CC9709'', ''#C74405'', ''#CC0058'', ''#692ECC'', ''#2F6ECC'', ''#080E24'']"

definition generate_color :: "nat \<Rightarrow> string" where
  "generate_color sid = colors ! (sid mod length colors)"

definition new_screen :: "nat \<Rightarrow> ScreenConfig" where
  "new_screen sid =
     \<lparr>screen_id = sid, ratio_w = 16, ratio_h = 9, screen_x = 0, screen_y = 0,
      width = 1920, height = 1080, color = generate_color sid\<rparr>"

definition get_box :: "ScreenConfig \<Rightarrow> int \<times> int \<times> int \<times> int" where
  "get_box s = (screen_x s, screen_y s, screen_x s + width s, screen_y s + height s)"

text \<open>
  \<open>calculate_resolution\<close> assigns \<open>self.width\<close> and \<open>self.height\<close> one after the other,
  so an exception raised by the second statement leaves the first assignment in place.
  The model returns the object as the call leaves it and the exception, if one was raised.
  \<open>resolution_from_factor\<close> is the body after its first statement.
\<close>

definition resolution_from_factor ::
  "ScreenConfig \<Rightarrow> int \<Rightarrow> int \<Rightarrow> pyfloat \<Rightarrow> ScreenConfig \<times> error option" where
  "resolution_from_factor s ref_width ref_height factor =
     (let max_ref_side = max ref_width ref_height in
      case int_mul_float max_ref_side factor of
        Inl e \<Rightarrow> (s, Some e)
      | Inr scaled_max_side \<Rightarrow>
          if ratio_h s \<le> ratio_w s then
            (case py_round scaled_max_side of
               Inl e \<Rightarrow> (s, Some e)
             | Inr w \<Rightarrow>
                 let s1 = s\<lparr>width := w\<rparr> in
                 (case truediv (ratio_h s) (ratio_w s) of
                    Inl e \<Rightarrow> (s1, Some e)
                  | Inr q \<Rightarrow>
                      (case py_round (fmul scaled_max_side q) of
                         Inl e \<Rightarrow> (s1, Some e)
                       | Inr h \<Rightarrow> (s1\<lparr>height := h\<rparr>, None))))
          else
            (case py_round scaled_max_side of
               Inl e \<Rightarrow> (s, Some e)
             | Inr h \<Rightarrow>
                 let s1 = s\<lparr>height := h\<rparr> in
                 (case truediv (ratio_w s) (ratio_h s) of
                    Inl e \<Rightarrow> (s1, Some e)
                  | Inr q \<Rightarrow>
                      (case py_round (fmul scaled_max_side q) of
                         Inl e \<Rightarrow> (s1, Some e)
                       | Inr w \<Rightarrow> (s1\<lparr>width := w\<rparr>, None)))))"

definition calculate_resolution ::
  "ScreenConfig \<Rightarrow> int \<Rightarrow> int \<Rightarrow> int \<Rightarrow> ScreenConfig \<times> error option" where
  "calculate_resolution s ref_width ref_height scale_percent =
     (case scale_factor scale_percent of
        Inl e \<Rightarrow> (s, Some e)
      | Inr factor \<Rightarrow> resolution_from_factor s ref_width ref_height factor)"

text \<open>
  The contract \<open>compute_resolution\<close> of the specification, read off the method: the
  dimensions the object holds after a call that returns, or the exception raised.
\<close>

definition resolution_of :: "ScreenConfig \<times> error option \<Rightarrow> error + int \<times> int" where
  "resolution_of r = (case r of (s, None) \<Rightarrow> Inr (width s, height s) | (s, Some e) \<Rightarrow> Inl e)"

definition compute_resolution ::
  "int \<Rightarrow> int \<Rightarrow> int \<Rightarrow> int \<Rightarrow> int \<Rightarrow> error + int \<times> int" where
  "compute_resolution rw rh ref_width ref_height scale_percent =
     resolution_of
       (calculate_resolution ((new_screen 0)\<lparr>ratio_w := rw, ratio_h := rh\<rparr>)
          ref_width ref_height scale_percent)"

section \<open>The algorithm of the specification\<close>

text \<open>
  Section 4.1 of the specification, step by step, in the arithmetic of the source: the
  operands are Python integers and floats, \<open>round\<close> is Python's. In
  \<open>rounded_side_resolution\<close> the second dimension is rounded from the first dimension,
  already rounded, as step 4 words it; in \<open>scaled_side_resolution\<close> it is rounded from
  the scaled side itself.
\<close>

definition rounded_side_resolution ::
  "int \<Rightarrow> int \<Rightarrow> int \<Rightarrow> int \<Rightarrow> int \<Rightarrow> error + int \<times> int" where
  "rounded_side_resolution rw rh reference_width reference_height scale_percent =
     (case scale_factor scale_percent of
        Inl e \<Rightarrow> Inl e
      | Inr factor \<Rightarrow>
          (case int_mul_float (max reference_width reference_height) factor of
             Inl e \<Rightarrow> Inl e
           | Inr scaled_max_side \<Rightarrow>
               (case py_round scaled_max_side of
                  Inl e \<Rightarrow> Inl e
                | Inr first \<Rightarrow>
                    if rh \<le> rw then
                      (case truediv (first * rh) rw of
                         Inl e \<Rightarrow> Inl e
                       | Inr v \<Rightarrow>
                           (case py_round v of Inl e \<Rightarrow> Inl e | Inr h \<Rightarrow> Inr (first, h)))
                    else
                      (case truediv (first * rw) rh of
                         Inl e \<Rightarrow> Inl e
                       | Inr v \<Rightarrow>
                           (case py_round v of Inl e \<Rightarrow> Inl e | Inr w \<Rightarrow> Inr (w, first))))))"

definition scaled_side_resolution ::
  "int \<Rightarrow> int \<Rightarrow> int \<Rightarrow> int \<Rightarrow> int \<Rightarrow> error + int \<times> int" where
  "scaled_side_resolution rw rh reference_width reference_height scale_percent =
     (case scale_factor scale_percent of
        Inl e \<Rightarrow> Inl e
      | Inr factor \<Rightarrow>
          (case int_mul_float (max reference_width reference_height) factor of
             Inl e \<Rightarrow> Inl e
           | Inr scaled_max_side \<Rightarrow>
               (case py_round scaled_max_side of
                  Inl e \<Rightarrow> Inl e
                | Inr first \<Rightarrow>
                    if rh \<le> rw then
                      (case truediv rh rw of
                         Inl e \<Rightarrow> Inl e
                       | Inr q \<Rightarrow>
                           (case py_round (fmul scaled_max_side q) of
                              Inl e \<Rightarrow> Inl e
                            | Inr h \<Rightarrow> Inr (first, h)))
                    else
                      (case truediv rw rh of
                         Inl e \<Rightarrow> Inl e
                       | Inr q \<Rightarrow>
                           (case py_round (fmul scaled_max_side q) of
                              Inl e \<Rightarrow> Inl e
                            | Inr w \<Rightarrow> Inr (w, first))))))"

section \<open>Strings and paths\<close>

text \<open>\<open>str(n)\<close> of an integer, as the f-strings of the source format it.\<close>

definition digit :: "nat \<Rightarrow> char" where
  "digit d = ''0123456789'' ! d"

function decimal :: "nat \<Rightarrow> string" where
  "decimal n = (if n < 10 then [digit n] else decimal (n div 10) @ [digit (n mod 10)])"
  by pat_completeness auto
termination
  by (relation "measure (\<lambda>n. n)") auto

definition str_int :: "int \<Rightarrow> string" where
  "str_int n = (if n < 0 then CHR ''-'' # decimal (nat (- n)) else decimal (nat n))"

text \<open>
  The functions of \<open>os.path\<close> are those of \<open>posixpath\<close>. \<open>rfind c p\<close> is \<open>p.rfind(c)\<close>
  for a single character: the last index of \<open>c\<close>, or \<open>-1\<close>.
\<close>

definition rfind :: "char \<Rightarrow> string \<Rightarrow> int" where
  "rfind c p =
     (if c \<in> set p
      then int (length p) - 1 - int (length (takeWhile (\<lambda>d. d \<noteq> c) (rev p)))
      else - 1)"

text \<open>
  \<open>os.path.splitext\<close>: the extension starts at the last dot of the last component,
  unless that component has nothing but dots before it.
\<close>

definition splitext :: "string \<Rightarrow> string \<times> string" where
  "splitext p =
     (let sepIndex = rfind CHR ''/'' p;
          dotIndex = rfind CHR ''.'' p
      in if sepIndex < dotIndex \<and>
            list_ex (\<lambda>c. c \<noteq> CHR ''.'')
              (take (nat (dotIndex - (sepIndex + 1))) (drop (nat (sepIndex + 1)) p))
         then (take (nat dotIndex) p, drop (nat dotIndex) p)
         else (p, []))"

text \<open>\<open>os.path.join(a, b)\<close>.\<close>

definition join :: "string \<Rightarrow> string \<Rightarrow> string" where
  "join a b =
     (if b \<noteq> [] \<and> hd b = CHR ''/'' then b
      else if a = [] \<or> last a = CHR ''/'' then a @ b
      else a @ ''/'' @ b)"

section \<open>Unique file names\<close>

text \<open>
  \<open>get_unique_filename\<close> asks the file system whether a path exists; \<open>path_exists\<close>
  stands for \<open>os.path.exists\<close>. Its loop has no bound, so the result is an option: \<open>None\<close>
  is a call that does not return.
\<close>

definition numbered_path :: "string \<Rightarrow> int \<Rightarrow> string \<Rightarrow> string" where
  "numbered_path name counter ext = name @ ''_'' @ str_int counter @ ext"

partial_function (option) unique_loop ::
  "(string \<Rightarrow> bool) \<Rightarrow> string \<Rightarrow> string \<Rightarrow> int \<Rightarrow> string option" where
  "unique_loop path_exists name ext counter =
     (let new_path = numbered_path name counter ext
      in if \<not> path_exists new_path then Some new_path
         else unique_loop path_exists name ext (counter + 1))"

definition get_unique_filename :: "(string \<Rightarrow> bool) \<Rightarrow> string \<Rightarrow> string option" where
  "get_unique_filename path_exists base_path =
     (if \<not> path_exists base_path then Some base_path
      else case splitext base_path of (name, ext) \<Rightarrow> unique_loop path_exists name ext 2)"

section \<open>The application\<close>

text \<open>
  A \<open>ScreenConfig\<close> is a mutable object that the screen list, the widgets and the
  callbacks share, so the objects live in a store indexed by references and the list
  \<open>screens\<close> holds references. \<open>created\<close> counts the objects made so far and is the next
  fresh reference. An image is its size and its pixels. The remaining fields are the
  attributes of \<open>WallpaperSplitterApp\<close> and of its \<open>GlobalConfigWidget\<close> that the
  computations read: \<open>offsets\<close> is \<open>None\<close> until \<open>x_offset\<close> and \<open>y_offset\<close> exist.
\<close>

type_synonym ref = nat

record image_data =
  size_w :: int
  size_h :: int
  pixels :: "int \<times> int \<Rightarrow> nat"

record GlobalConfigWidget =
  cfg_ref_width :: int
  cfg_ref_height :: int
  cfg_scale_percent :: int

record WallpaperSplitterApp =
  app_image :: "image_data option"
  image_path :: string
  screens :: "ref list"
  objects :: "ref \<Rightarrow> ScreenConfig"
  created :: nat
  global_config :: GlobalConfigWidget
  view_scale_factor :: pyfloat
  has_background :: bool
  offsets :: "(int \<times> int) option"

definition init_app :: WallpaperSplitterApp where
  "init_app =
     \<lparr>app_image = None, image_path = [], screens = [], objects = (\<lambda>r. new_screen 0),
      created = 0,
      global_config = \<lparr>cfg_ref_width = 2560, cfg_ref_height = 1440, cfg_scale_percent = 50\<rparr>,
      view_scale_factor = Finite 1, has_background = False, offsets = None\<rparr>"

subsection \<open>The preview\<close>

text \<open>
  The four coordinates that \<open>draw_rectangles\<close> computes for one screen, in the order of
  the source; the first exception ends the computation.
\<close>

definition preview_coord :: "int \<Rightarrow> pyfloat \<Rightarrow> int \<Rightarrow> error + int" where
  "preview_coord v factor offset =
     (case int_mul_float v factor of
        Inl e \<Rightarrow> Inl e
      | Inr p \<Rightarrow> (case py_int p of Inl e \<Rightarrow> Inl e | Inr c \<Rightarrow> Inr (c + offset)))"

definition project ::
  "ScreenConfig \<Rightarrow> pyfloat \<Rightarrow> int \<Rightarrow> int \<Rightarrow> error + int \<times> int \<times> int \<times> int" where
  "project s factor x_offset y_offset =
     (case preview_coord (screen_x s) factor x_offset of
        Inl e \<Rightarrow> Inl e
      | Inr x1 \<Rightarrow>
     (case preview_coord (screen_y s) factor y_offset of
        Inl e \<Rightarrow> Inl e
      | Inr y1 \<Rightarrow>
     (case preview_coord (screen_x s + width s) factor x_offset of
        Inl e \<Rightarrow> Inl e
      | Inr x2 \<Rightarrow>
     (case preview_coord (screen_y s + height s) factor y_offset of
        Inl e \<Rightarrow> Inl e
      | Inr y2 \<Rightarrow> Inr (x1, y1, x2, y2)))))"

fun draw_loop ::
  "ScreenConfig list \<Rightarrow> pyfloat \<Rightarrow> int \<Rightarrow> int \<Rightarrow> error + (int \<times> int \<times> int \<times> int) list" where
  "draw_loop [] factor x_offset y_offset = Inr []"
| "draw_loop (s # ss) factor x_offset y_offset =
     (case project s factor x_offset y_offset of
        Inl e \<Rightarrow> Inl e
      | Inr r \<Rightarrow>
          (case draw_loop ss factor x_offset y_offset of
             Inl e \<Rightarrow> Inl e
           | Inr rs \<Rightarrow> Inr (r # rs)))"

definition draw_rectangles :: "WallpaperSplitterApp \<Rightarrow> error + (int \<times> int \<times> int \<times> int) list" where
  "draw_rectangles app =
     (case offsets app of
        None \<Rightarrow> Inr []
      | Some (x_offset, y_offset) \<Rightarrow>
          draw_loop (map (objects app) (screens app)) (view_scale_factor app) x_offset y_offset)"

definition update_preview_rectangles :: "WallpaperSplitterApp \<Rightarrow> error option" where
  "update_preview_rectangles app =
     (if app_image app = None \<or> \<not> has_background app then None
      else case draw_rectangles app of Inl e \<Rightarrow> Some e | Inr _ \<Rightarrow> None)"

text \<open>
  The projection as section 4.3 of the specification words it, with \<open>floor\<close> where the
  source calls \<open>int\<close>.
\<close>

fun py_floor :: "pyfloat \<Rightarrow> error + int" where
  "py_floor (Finite x) = Inr \<lfloor>x\<rfloor>"
| "py_floor (Inf _) = Inl OverflowError"
| "py_floor NaN = Inl ValueError"

definition floor_coord :: "int \<Rightarrow> pyfloat \<Rightarrow> int \<Rightarrow> error + int" where
  "floor_coord v factor offset =
     (case int_mul_float v factor of
        Inl e \<Rightarrow> Inl e
      | Inr p \<Rightarrow> (case py_floor p of Inl e \<Rightarrow> Inl e | Inr c \<Rightarrow> Inr (c + offset)))"

definition floor_project ::
  "ScreenConfig \<Rightarrow> pyfloat \<Rightarrow> int \<Rightarrow> int \<Rightarrow> error + int \<times> int \<times> int \<times> int" where
  "floor_project s factor x_offset y_offset =
     (case floor_coord (screen_x s) factor x_offset of
        Inl e \<Rightarrow> Inl e
      | Inr x1 \<Rightarrow>
     (case floor_coord (screen_y s) factor y_offset of
        Inl e \<Rightarrow> Inl e
      | Inr y1 \<Rightarrow>
     (case floor_coord (screen_x s + width s) factor x_offset of
        Inl e \<Rightarrow> Inl e
      | Inr x2 \<Rightarrow>
     (case floor_coord (screen_y s + height s) factor y_offset of
        Inl e \<Rightarrow> Inl e
      | Inr y2 \<Rightarrow> Inr (x1, y1, x2, y2)))))"

subsection \<open>Recalculation\<close>

text \<open>
  \<open>recalculate_all_resolutions\<close> walks the list; an exception leaves the screens before
  it recalculated and the one that raised as \<open>calculate_resolution\<close> left it. The widgets
  are refreshed and the rectangles redrawn afterwards.
\<close>

fun recalculate_loop ::
  "ref list \<Rightarrow> (ref \<Rightarrow> ScreenConfig) \<Rightarrow> int \<Rightarrow> int \<Rightarrow> int \<Rightarrow>
   (ref \<Rightarrow> ScreenConfig) \<times> error option" where
  "recalculate_loop [] objs ref_width ref_height scale_percent = (objs, None)"
| "recalculate_loop (r # rs) objs ref_width ref_height scale_percent =
     (case calculate_resolution (objs r) ref_width ref_height scale_percent of
        (s, Some e) \<Rightarrow> (objs(r := s), Some e)
      | (s, None) \<Rightarrow>
          recalculate_loop rs (objs(r := s)) ref_width ref_height scale_percent)"

definition recalculate_all_resolutions ::
  "WallpaperSplitterApp \<Rightarrow> WallpaperSplitterApp \<times> error option" where
  "recalculate_all_resolutions app =
     (let g = global_config app in
      case recalculate_loop (screens app) (objects app)
             (cfg_ref_width g) (cfg_ref_height g) (cfg_scale_percent g) of
        (objs, Some e) \<Rightarrow> (app\<lparr>objects := objs\<rparr>, Some e)
      | (objs, None) \<Rightarrow>
          (app\<lparr>objects := objs\<rparr>, update_preview_rectangles (app\<lparr>objects := objs\<rparr>)))"

subsection \<open>Adding, editing and deleting screens\<close>

definition add_screen :: "WallpaperSplitterApp \<Rightarrow> WallpaperSplitterApp \<times> error option" where
  "add_screen app =
     (let sid = length (screens app);
          r = created app
      in recalculate_all_resolutions
           (app\<lparr>screens := screens app @ [r],
                objects := (objects app)(r := new_screen sid),
                created := Suc r\<rparr>))"

text \<open>
  \<open>update_config\<close> of the widget of the screen \<open>r\<close>. The four arguments are the results
  of \<open>int(entry.get())\<close> for the four entries, \<open>None\<close> when \<open>int\<close> raises \<open>ValueError\<close>.
  The handler \<open>except ValueError: pass\<close> also covers the recalculation.
\<close>

definition update_config ::
  "WallpaperSplitterApp \<Rightarrow> ref \<Rightarrow> int option \<Rightarrow> int option \<Rightarrow> int option \<Rightarrow> int option \<Rightarrow>
   WallpaperSplitterApp \<times> error option" where
  "update_config app r ratio_w_entry ratio_h_entry x_entry y_entry =
     (case ratio_w_entry of None \<Rightarrow> (app, None) | Some rw \<Rightarrow>
     (case ratio_h_entry of None \<Rightarrow> (app, None) | Some rh \<Rightarrow>
     (case x_entry of None \<Rightarrow> (app, None) | Some x \<Rightarrow>
     (case y_entry of None \<Rightarrow> (app, None) | Some y \<Rightarrow>
        if rw \<le> 0 \<or> rh \<le> 0 then (app, None)
        else
          (case recalculate_all_resolutions
                  (app\<lparr>objects := (objects app)
                     (r := (objects app r)
                        \<lparr>ratio_w := rw, ratio_h := rh, screen_x := x, screen_y := y\<rparr>)\<rparr>) of
             (app', Some ValueError) \<Rightarrow> (app', None)
           | (app', e) \<Rightarrow> (app', e))))))"

text \<open>\<open>apply_reference\<close> of the global widget, with the two entries parsed likewise.\<close>

definition apply_reference ::
  "WallpaperSplitterApp \<Rightarrow> int option \<Rightarrow> int option \<Rightarrow> WallpaperSplitterApp \<times> error option" where
  "apply_reference app ref_width_entry ref_height_entry =
     (case ref_width_entry of None \<Rightarrow> (app, None) | Some new_width \<Rightarrow>
     (case ref_height_entry of None \<Rightarrow> (app, None) | Some new_height \<Rightarrow>
        if new_width \<le> 0 \<or> new_height \<le> 0 then (app, None)
        else
          (case recalculate_all_resolutions
                  (app\<lparr>global_config := (global_config app)
                     \<lparr>cfg_ref_width := new_width, cfg_ref_height := new_height\<rparr>\<rparr>) of
             (app', Some ValueError) \<Rightarrow> (app', None)
           | (app', e) \<Rightarrow> (app', e))))"

text \<open>
  \<open>delete_screen\<close>: \<open>list.index\<close> finds the first position of the object (objects
  compare by identity), \<open>pop\<close> removes it, the loop over \<open>enumerate\<close> renumbers. Every
  exception, the \<open>ValueError\<close> of \<open>index\<close> included, is caught and logged.
\<close>

fun index_of :: "'a \<Rightarrow> 'a list \<Rightarrow> nat option" where
  "index_of a [] = None"
| "index_of a (b # bs) =
     (if b = a then Some 0 else map_option Suc (index_of a bs))"

definition pop :: "nat \<Rightarrow> 'a list \<Rightarrow> 'a list" where
  "pop i xs = take i xs @ drop (Suc i) xs"

fun renumber :: "ref list \<Rightarrow> nat \<Rightarrow> (ref \<Rightarrow> ScreenConfig) \<Rightarrow> (ref \<Rightarrow> ScreenConfig)" where
  "renumber [] i objs = objs"
| "renumber (r # rs) i objs =
     renumber rs (Suc i) (objs(r := (objs r)\<lparr>screen_id := i, color := generate_color i\<rparr>))"

definition delete_screen :: "WallpaperSplitterApp \<Rightarrow> ref \<Rightarrow> WallpaperSplitterApp" where
  "delete_screen app screen_config =
     (case index_of screen_config (screens app) of
        None \<Rightarrow> app
      | Some index \<Rightarrow>
          let remaining = pop index (screens app)
          in fst (recalculate_all_resolutions
                    (app\<lparr>screens := remaining,
                         objects := renumber remaining 0 (objects app)\<rparr>)))"

subsection \<open>Rejected edits\<close>

text \<open>
  The edits that section 7 of the specification calls \<open>InvalidParameter\<close>: an entry that
  is not an integer, a ratio or a reference dimension that is not positive.
\<close>

definition invalid_screen_edit ::
  "int option \<Rightarrow> int option \<Rightarrow> int option \<Rightarrow> int option \<Rightarrow> bool" where
  "invalid_screen_edit ratio_w_entry ratio_h_entry x_entry y_entry =
     ((case ratio_w_entry of None \<Rightarrow> True | Some rw \<Rightarrow> rw \<le> 0) \<or>
      (case ratio_h_entry of None \<Rightarrow> True | Some rh \<Rightarrow> rh \<le> 0) \<or>
      x_entry = None \<or> y_entry = None)"

definition invalid_reference_edit :: "int option \<Rightarrow> int option \<Rightarrow> bool" where
  "invalid_reference_edit ref_width_entry ref_height_entry =
     ((case ref_width_entry of None \<Rightarrow> True | Some w \<Rightarrow> w \<le> 0) \<or>
      (case ref_height_entry of None \<Rightarrow> True | Some h \<Rightarrow> h \<le> 0))"

text \<open>The objects \<open>s\<close> and \<open>t\<close> differ in their dimensions at most.\<close>

definition same_but_size :: "ScreenConfig \<Rightarrow> ScreenConfig \<Rightarrow> bool" where
  "same_but_size s t \<longleftrightarrow> t = s\<lparr>width := width t, height := height t\<rparr>"

text \<open>
  The invariant of the screen list: \<open>add_screen\<close> appends an object it has just created,
  so no object is listed twice.
\<close>

definition screens_wf :: "WallpaperSplitterApp \<Rightarrow> bool" where
  "screens_wf app \<longleftrightarrow> distinct (screens app) \<and> list_all (\<lambda>r. r < created app) (screens app)"

text \<open>The state after four clicks on \<open>+ Add\<close> in a fresh application.\<close>

definition four_screens :: WallpaperSplitterApp where
  "four_screens = fst (add_screen (fst (add_screen (fst (add_screen (fst (add_screen init_app)))))))"

subsection \<open>Export\<close>

text \<open>
  The file system maps the paths that exist to their contents. \<open>Image.save\<close> belongs to
  the imaging library and can fail (a suffix it does not know, a folder that cannot be
  written): the parameter \<open>save\<close> gives, for the file system, the path and the image, the
  message of the exception, or \<open>None\<close> when the file is written. A save that fails leaves
  no file. \<open>crop\<close> copies the pixels of the box.
\<close>

type_synonym file_system = "string \<rightharpoonup> image_data"

type_synonym saver = "file_system \<Rightarrow> string \<Rightarrow> image_data \<Rightarrow> string option"

definition crop :: "image_data \<Rightarrow> int \<times> int \<times> int \<times> int \<Rightarrow> image_data" where
  "crop img box =
     (case box of (left, upper, right, lower) \<Rightarrow>
        \<lparr>size_w = right - left, size_h = lower - upper,
         pixels = (\<lambda>(i, j). pixels img (left + i, upper + j))\<rparr>)"

text \<open>
  The logger receives one record for every screen of the loop: \<open>Extracted\<close> for
  \<open>logger.info\<close> with the path written, \<open>Failed\<close> for \<open>logger.error\<close> with the message
  that also goes to \<open>errors\<close>.
\<close>

datatype log_record = Extracted ref string | Failed ref string

record export_state =
  st_app :: WallpaperSplitterApp
  st_files :: file_system
  extracted_count :: int
  errors :: "string list"
  logged :: "log_record list"
  result_window :: "(string \<times> string option) option"

definition boundary_message :: "ScreenConfig \<Rightarrow> string" where
  "boundary_message screen =
     ''Screen '' @ str_int (int (screen_id screen) + 1) @ '' exceeds image boundaries''"

definition exception_message :: "ScreenConfig \<Rightarrow> string \<Rightarrow> string" where
  "exception_message screen e =
     ''Error screen '' @ str_int (int (screen_id screen) + 1) @ '': '' @ e"

definition output_name :: "ScreenConfig \<Rightarrow> string" where
  "output_name screen =
     ''wallpaper_screen_'' @ str_int (ratio_w screen) @ ''-'' @ str_int (ratio_h screen)"

text \<open>The body of the loop of \<open>extract_all\<close> for the screen \<open>r\<close>; \<open>None\<close> is no return.\<close>

definition extract_screen ::
  "saver \<Rightarrow> string \<Rightarrow> ref \<Rightarrow> export_state \<Rightarrow> export_state option" where
  "extract_screen save output_folder r st =
     (let app = st_app st; screen = objects app r in
      case app_image app of
        None \<Rightarrow>
          (let error_msg = exception_message screen
                 ([CHR 0x27] @ ''NoneType'' @ [CHR 0x27] @ '' object has no attribute '' @
                  [CHR 0x27] @ ''size'' @ [CHR 0x27])
           in Some (st\<lparr>errors := errors st @ [error_msg],
                        logged := logged st @ [Failed r error_msg]\<rparr>))
      | Some img \<Rightarrow>
          if screen_x screen < 0 \<or> screen_y screen < 0 \<or>
             size_w img < screen_x screen + width screen \<or>
             size_h img < screen_y screen + height screen
          then
            (let error_msg = boundary_message screen
             in Some (st\<lparr>errors := errors st @ [error_msg],
                          logged := logged st @ [Failed r error_msg]\<rparr>))
          else
            (let cropped = crop img (get_box screen);
                 ext = snd (splitext (image_path app));
                 filename = output_name screen @ ext;
                 filepath = join output_folder filename
             in case get_unique_filename (\<lambda>p. st_files st p \<noteq> None) filepath of
                  None \<Rightarrow> None
                | Some unique \<Rightarrow>
                    (case save (st_files st) unique cropped of
                       Some e \<Rightarrow>
                         (let error_msg = exception_message screen e
                          in Some (st\<lparr>errors := errors st @ [error_msg],
                                       logged := logged st @ [Failed r error_msg]\<rparr>))
                     | None \<Rightarrow>
                         Some (st\<lparr>st_files := (st_files st)(unique \<mapsto> cropped),
                                  extracted_count := extracted_count st + 1,
                                  logged := logged st @ [Extracted r unique]\<rparr>))))"

fun extract_loop ::
  "saver \<Rightarrow> string \<Rightarrow> ref list \<Rightarrow> export_state \<Rightarrow> export_state option" where
  "extract_loop save output_folder [] st = Some st"
| "extract_loop save output_folder (r # rs) st =
     (case extract_screen save output_folder r st of
        None \<Rightarrow> None
      | Some st' \<Rightarrow> extract_loop save output_folder rs st')"

text \<open>
  The texts of the result dialog: the message and, when there are errors, the first three
  of them on a line each.
\<close>

fun join_lines :: "string list \<Rightarrow> string" where
  "join_lines [] = []"
| "join_lines [l] = l"
| "join_lines (l # ls) = l @ [CHR 0x0A] @ join_lines ls"

definition result_texts :: "int \<Rightarrow> string list \<Rightarrow> string \<Rightarrow> string \<times> string option" where
  "result_texts count errs output_folder =
     (let msg =
        (if 0 < count then
           str_int count @ '' screen(s) extracted!'' @ [CHR 0x0A, CHR 0x0A] @
           ''Files saved in:'' @ [CHR 0x0A] @ output_folder @
           (if errs \<noteq> [] then
              [CHR 0x0A, CHR 0x0A] @ str_int (int (length errs)) @ '' error(s) occurred''
            else [])
         else ''No extraction succeeded'')
      in (msg, if errs \<noteq> [] then Some (join_lines (take 3 errs)) else None))"

text \<open>
  \<open>extract_all\<close>; \<open>output_folder\<close> is the answer of the folder dialog, empty when the
  user cancels. The three early returns build no result window.
\<close>

definition extract_all ::
  "saver \<Rightarrow> string \<Rightarrow> WallpaperSplitterApp \<Rightarrow> file_system \<Rightarrow> export_state option" where
  "extract_all save output_folder app files =
     (let st = \<lparr>st_app = app, st_files = files, extracted_count = 0, errors = [],
                logged = [], result_window = None\<rparr>
      in if app_image app = None then Some st
         else if length (screens app) = 0 then Some st
         else if output_folder = [] then Some st
         else case extract_loop save output_folder (screens app) st of
                None \<Rightarrow> None
              | Some st' \<Rightarrow>
                  Some (st'\<lparr>result_window :=
                    Some (result_texts (extracted_count st') (errors st') output_folder)\<rparr>))"

text \<open>The bounds that section 4.2 of the specification validates.\<close>

definition in_bounds :: "ScreenConfig \<Rightarrow> image_data \<Rightarrow> bool" where
  "in_bounds screen img \<longleftrightarrow>
     0 \<le> screen_x screen \<and> 0 \<le> screen_y screen \<and>
     screen_x screen + width screen \<le> size_w img \<and>
     screen_y screen + height screen \<le> size_h img"

text \<open>The paths that the records say were written.\<close>

fun written :: "log_record list \<Rightarrow> string set" where
  "written [] = {}"
| "written (Extracted r p # l) = insert p (written l)"
| "written (Failed r m # l) = written l"

text \<open>
  What the export owes the specification, record by record. \<open>unique_in S stem ext p\<close>:
  among the existing paths \<open>S\<close>, \<open>p\<close> is \<open>stem ext\<close> when that path is free and otherwise
  the numbered path of the least number from 2 on that is free. \<open>write_record\<close> is the
  effect of a record on the file system. \<open>record_ok\<close>: on the file system \<open>fs\<close> the
  record of the screen \<open>r\<close> is the boundary failure when the screen leaves the image;
  otherwise the crop goes to the unique path, and the record says that it was written
  when the save succeeds there, and carries the message of the save when it fails.
  \<open>records_ok\<close> runs through the list, each record acting on the file system.
\<close>

definition unique_in :: "string set \<Rightarrow> string \<Rightarrow> string \<Rightarrow> string \<Rightarrow> bool" where
  "unique_in S stem ext p \<longleftrightarrow>
     p \<notin> S \<and>
     (if stem @ ext \<notin> S then p = stem @ ext
      else \<exists>n\<ge>2. p = numbered_path stem n ext \<and>
             (\<forall>j. 2 \<le> j \<and> j < n \<longrightarrow> numbered_path stem j ext \<in> S))"

fun write_record ::
  "WallpaperSplitterApp \<Rightarrow> image_data \<Rightarrow> file_system \<Rightarrow> log_record \<Rightarrow> file_system" where
  "write_record app img fs (Extracted r p) = fs(p \<mapsto> crop img (get_box (objects app r)))"
| "write_record app img fs (Failed r m) = fs"

definition files_after ::
  "WallpaperSplitterApp \<Rightarrow> image_data \<Rightarrow> file_system \<Rightarrow> log_record list \<Rightarrow> file_system" where
  "files_after app img fs recs = foldl (write_record app img) fs recs"

definition record_ok ::
  "saver \<Rightarrow> string \<Rightarrow> WallpaperSplitterApp \<Rightarrow> image_data \<Rightarrow> file_system \<Rightarrow> ref \<Rightarrow>
   log_record \<Rightarrow> bool" where
  "record_ok save output_folder app img fs r rec \<longleftrightarrow>
     (let screen = objects app r in
      if \<not> in_bounds screen img then rec = Failed r (boundary_message screen)
      else \<exists>p. unique_in (dom fs) (join output_folder (output_name screen))
                  (snd (splitext (image_path app))) p \<and>
               (case save fs p (crop img (get_box screen)) of
                  None \<Rightarrow> rec = Extracted r p
                | Some e \<Rightarrow> rec = Failed r (exception_message screen e)))"

fun records_ok ::
  "saver \<Rightarrow> string \<Rightarrow> WallpaperSplitterApp \<Rightarrow> image_data \<Rightarrow> file_system \<Rightarrow> ref list \<Rightarrow>
   log_record list \<Rightarrow> bool" where
  "records_ok save output_folder app img fs [] recs = (recs = [])"
| "records_ok save output_folder app img fs (r # rs) [] = False"
| "records_ok save output_folder app img fs (r # rs) (rec # recs) =
     (record_ok save output_folder app img fs r rec \<and>
      records_ok save output_folder app img (write_record app img fs rec) rs recs)"

fun failures :: "log_record list \<Rightarrow> string list" where
  "failures [] = []"
| "failures (Extracted r p # l) = failures l"
| "failures (Failed r m # l) = m # failures l"

fun successes :: "log_record list \<Rightarrow> (ref \<times> string) list" where
  "successes [] = []"
| "successes (Extracted r p # l) = (r, p) # successes l"
| "successes (Failed r m # l) = successes l"

text \<open>
  An export to look at: a wallpaper of 3840x2160 pixels, loaded from
  \<open>/home/u/wallpaper.png\<close>, two screens of 3200x1800 pixels, the first in the corner and
  the second leaving the image on the right, a folder \<open>/out\<close> that already holds
  \<open>wallpaper_screen_16-9.png\<close>, and saves that succeed.
\<close>

definition example_image :: image_data where
  "example_image = \<lparr>size_w = 3840, size_h = 2160, pixels = (\<lambda>(i, j). 0)\<rparr>"

definition example_app :: WallpaperSplitterApp where
  "example_app =
     init_app\<lparr>app_image := Some example_image, image_path := ''/home/u/wallpaper.png'',
       screens := [0, 1],
       objects :=
         (\<lambda>r. if r = 1 then (new_screen 1)\<lparr>screen_x := 3000, width := 3200, height := 1800\<rparr>
              else (new_screen 0)\<lparr>width := 3200, height := 1800\<rparr>),
       created := 2\<rparr>"

definition example_files :: file_system where
  "example_files = [''/out/wallpaper_screen_16-9.png'' \<mapsto> example_image]"

definition always_saves :: saver where
  "always_saves fs p img = None"

text \<open>
  The same wallpaper loaded from a file without a suffix: the names of the output files
  have none either, and the imaging library refuses to save a file whose suffix it does
  not know.
\<close>

definition suffixless_app :: WallpaperSplitterApp where
  "suffixless_app = example_app\<lparr>image_path := ''/home/u/wallpaper''\<rparr>"

definition suffix_saver :: saver where
  "suffix_saver fs p img =
     (if snd (splitext p) = [] then Some ''unknown file extension: '' else None)"

section \<open>Facts about the float model\<close>

lemma pow2_pos: "0 < pow2 e"
  by (simp add: pow2_def)

lemma pow2_add: "pow2 (a + b) = pow2 a * pow2 b"
  by (simp add: pow2_def power_int_add)

lemma pow2_less_iff: "pow2 a < pow2 b \<longleftrightarrow> a < b"
proof
  assume less: "pow2 a < pow2 b"
  show "a < b"
  proof (rule ccontr)
    assume "\<not> a < b"
    then have "b \<le> a" by simp
    then have "pow2 b \<le> pow2 a"
      unfolding pow2_def by (intro power_int_increasing) simp_all
    with less show False by simp
  qed
next
  assume "a < b"
  then show "pow2 a < pow2 b"
    unfolding pow2_def by (intro power_int_strict_increasing) simp_all
qed

lemma pow2_nat: "0 \<le> e \<Longrightarrow> pow2 e = 2 ^ nat e"
  by (simp add: pow2_def power_int_def)

lemma pow2_bitlen_le:
  assumes "0 < p"
  shows "pow2 (bitlen p - 1) \<le> of_int p"
proof -
  have "1 \<le> bitlen p" using assms by (simp add: bitlen_alt_def)
  moreover have "(of_int (2 ^ nat (bitlen p - 1)) :: rat) \<le> of_int p"
    using bitlen_bounds [OF assms] by (simp only: of_int_le_iff)
  ultimately show ?thesis by (simp add: pow2_nat)
qed

lemma pow2_bitlen_greater:
  assumes "0 < p"
  shows "of_int p < pow2 (bitlen p)"
proof -
  have "1 \<le> bitlen p" using assms by (simp add: bitlen_alt_def)
  moreover have "(of_int p :: rat) < of_int (2 ^ nat (bitlen p))"
    using bitlen_bounds [OF assms] by (simp only: of_int_less_iff)
  ultimately show ?thesis by (simp add: pow2_nat)
qed

text \<open>\<open>ilog2\<close> finds the binade of its argument.\<close>

lemma ilog2_eqI:
  assumes "pow2 e \<le> \<bar>x\<bar>" and "\<bar>x\<bar> < pow2 (e + 1)"
  shows "ilog2 x = e"
proof -
  obtain p q where pq: "quotient_of \<bar>x\<bar> = (p, q)" by (cases "quotient_of \<bar>x\<bar>")
  have qpos: "0 < q" using pq by (rule quotient_of_denom_pos)
  have xeq: "\<bar>x\<bar> = of_int p / of_int q" using pq by (rule quotient_of_div)
  have xpos: "0 < \<bar>x\<bar>" using assms(1) pow2_pos [of e] by linarith
  have ppos: "0 < p" using xpos qpos xeq by (simp add: zero_less_divide_iff)
  define d where "d = bitlen p - bitlen q"
  have qr: "(0::rat) < of_int q" using qpos by simp
  have lo: "pow2 (d - 1) < \<bar>x\<bar>"
  proof -
    have "pow2 (d - 1) * of_int q < pow2 (d - 1) * pow2 (bitlen q)"
      using pow2_bitlen_greater [OF qpos] pow2_pos [of "d - 1"] by simp
    also have "\<dots> = pow2 (bitlen p - 1)"
      by (simp add: d_def flip: pow2_add)
    also have "\<dots> \<le> of_int p" by (rule pow2_bitlen_le [OF ppos])
    finally show ?thesis using qr by (simp add: xeq pos_less_divide_eq)
  qed
  have hi: "\<bar>x\<bar> < pow2 (d + 1)"
  proof -
    have "of_int p < pow2 (bitlen p)" by (rule pow2_bitlen_greater [OF ppos])
    also have "\<dots> = pow2 (d + 1) * pow2 (bitlen q - 1)"
      by (simp add: d_def flip: pow2_add)
    also have "\<dots> \<le> pow2 (d + 1) * of_int q"
      using pow2_bitlen_le [OF qpos] pow2_pos [of "d + 1"] by simp
    finally show ?thesis using qr by (simp add: xeq pos_divide_less_eq)
  qed
  have e1: "e < d + 1"
    using assms(1) hi pow2_less_iff [of e "d + 1"] by linarith
  have e2: "d - 1 < e + 1"
    using assms(2) lo pow2_less_iff [of "d - 1" "e + 1"] by linarith
  have il: "ilog2 x = (if pow2 d \<le> \<bar>x\<bar> then d else d - 1)"
    by (simp add: ilog2_def pq d_def Let_def)
  show ?thesis
  proof (cases "pow2 d \<le> \<bar>x\<bar>")
    case True
    then have "d < e + 1" using assms(2) pow2_less_iff [of d "e + 1"] by linarith
    then show ?thesis using il True e1 by simp
  next
    case False
    then have "e < d" using assms(1) pow2_less_iff [of e d] by linarith
    then show ?thesis using il False e2 by simp
  qed
qed

text \<open>Rounding a number whose binade is known.\<close>

lemma fl_at:
  assumes "pow2 e \<le> \<bar>x\<bar>" and "\<bar>x\<bar> < pow2 (e + 1)"
  shows "fl x =
     (let q = pow2 (max e (- 1022) - 52);
          y = of_int (round_half_even (x / q)) * q
      in if pow2 1024 \<le> \<bar>y\<bar> then Inf (0 < x) else Finite y)"
proof -
  have "x \<noteq> 0" using assms(1) pow2_pos [of e] by auto
  then show ?thesis by (simp add: fl_def ilog2_eqI [OF assms])
qed

lemma fl_zero: "fl 0 = Finite 0"
  by (simp add: fl_def)

lemma floor_rat_numeral:
  "\<lfloor>numeral a / numeral b :: rat\<rfloor> = numeral a div numeral b"
  "\<lfloor>- (numeral a / numeral b) :: rat\<rfloor> = - numeral a div numeral b"
  "\<lfloor>1 / numeral b :: rat\<rfloor> = 1 div numeral b"
  "\<lfloor>- (1 / numeral b) :: rat\<rfloor> = - 1 div numeral b"
proof -
  show "\<lfloor>numeral a / numeral b :: rat\<rfloor> = numeral a div numeral b"
    using floor_divide_of_int_eq [of "numeral a" "numeral b", where ?'a = rat] by simp
  show "\<lfloor>- (numeral a / numeral b) :: rat\<rfloor> = - numeral a div numeral b"
    using floor_divide_of_int_eq [of "- numeral a" "numeral b", where ?'a = rat] by simp
  show "\<lfloor>1 / numeral b :: rat\<rfloor> = 1 div numeral b"
    using floor_divide_of_int_eq [of 1 "numeral b", where ?'a = rat] by simp
  show "\<lfloor>- (1 / numeral b) :: rat\<rfloor> = - 1 div numeral b"
    using floor_divide_of_int_eq [of "- 1" "numeral b", where ?'a = rat] by simp
qed

lemmas fl_eval = pow2_def round_half_even_def Let_def floor_rat_numeral

lemmas resolution_eval = compute_resolution_def resolution_of_def calculate_resolution_def
  resolution_from_factor_def new_screen_def scale_factor_def truediv_def
  int_mul_float_def float_of_int_def

section \<open>The scale factor\<close>

text \<open>
  C2. The docstring of \<open>calculate_resolution\<close> and the label under the slider promise
  the factors 0.5, 1.0 and 2.0 at 0, 50 and 100 percent. The formula of the source gives
  0.5 and 2.0 at the two ends, and 1.25 in the middle.
\<close>

theorem scale_factor_at_0_50_100:
  "scale_factor 0 = Inr (Finite (1 / 2)) \<and>
   scale_factor 50 = Inr (Finite (5 / 4)) \<and>
   scale_factor 100 = Inr (Finite 2)"
  by (simp add: scale_factor_def truediv_def fl_zero
      fl_at [of "- 1"] fl_at [of 0] fl_at [of 1] fl_eval)

section \<open>The resolution of a screen\<close>

text \<open>
  C1. For every screen and all integer arguments, \<open>calculate_resolution\<close> computes the
  algorithm of section 4.1 with the second dimension rounded from the scaled side
  \<open>scaled_max_side * (ratio_h / ratio_w)\<close> (respectively
  \<open>scaled_max_side * (ratio_w / ratio_h)\<close>), and raises exactly when that algorithm does.
\<close>

theorem calculate_resolution_scaled_side:
  "resolution_of (calculate_resolution s ref_width ref_height scale_percent) =
   scaled_side_resolution (ratio_w s) (ratio_h s) ref_width ref_height scale_percent"
  by (simp add: resolution_of_def calculate_resolution_def resolution_from_factor_def
      scaled_side_resolution_def Let_def split: sum.splits)

text \<open>
  The second dimension is not rounded from the first, rounded one: with the reference
  2560x1440 of the application, the ratio 16:9 and the slider on 1 percent the scaled side
  is 1318.4, so the source returns the height \<open>round(741.6) = 742\<close>, and the wording of
  step 4 gives \<open>round(1318 * 9 / 16) = round(741.375) = 741\<close>.
\<close>

theorem calculate_resolution_not_rounded_side:
  "compute_resolution 16 9 2560 1440 1 = Inr (1318, 742) \<and>
   rounded_side_resolution 16 9 2560 1440 1 = Inr (1318, 741)"
  by (simp add: resolution_eval rounded_side_resolution_def fl_at [of "- 1"]
      fl_at [of "- 7"] fl_at [of 11] fl_at [of 10] fl_at [of 9] fl_eval)

text \<open>
  C3. With the reference 2560x1440 and the factor 1.0 the calculation gives 2560x1440 for
  the ratio 16:9 and 1440x2560 for the ratio 9:16: the height of a portrait screen is the
  scaled longer side of the reference.
\<close>

theorem resolution_2560x1440_factor_1:
  "resolution_of (resolution_from_factor ((new_screen 0)\<lparr>ratio_w := 16, ratio_h := 9\<rparr>)
      2560 1440 (Finite 1)) = Inr (2560, 1440) \<and>
   resolution_of (resolution_from_factor ((new_screen 0)\<lparr>ratio_w := 9, ratio_h := 16\<rparr>)
      2560 1440 (Finite 1)) = Inr (1440, 2560)"
  by (simp add: resolution_eval fl_at [of "- 1"] fl_at [of 0] fl_at [of 11]
      fl_at [of 10] fl_eval)

text \<open>
  At 50 percent the source scales by 1.25 and returns 3200x1800 and 1800x3200, neither
  2560x1440 nor 810x1440.
\<close>

theorem resolution_2560x1440_at_50:
  "compute_resolution 16 9 2560 1440 50 = Inr (3200, 1800) \<and>
   compute_resolution 9 16 2560 1440 50 = Inr (1800, 3200) \<and>
   compute_resolution 16 9 2560 1440 50 \<noteq> Inr (2560, 1440) \<and>
   compute_resolution 9 16 2560 1440 50 \<noteq> Inr (810, 1440)"
  by (simp add: resolution_eval fl_at [of "- 1"] fl_at [of 0] fl_at [of 11]
      fl_at [of 10] fl_eval)

section \<open>Decimal numbers and numbered paths\<close>

lemma decimal_simps:
  "n < 10 \<Longrightarrow> decimal n = [digit n]"
  "\<not> n < 10 \<Longrightarrow> decimal n = decimal (n div 10) @ [digit (n mod 10)]"
  by simp_all

lemma decimal_nonempty: "decimal n \<noteq> []"
  by (cases "n < 10") (simp_all del: decimal.simps add: decimal_simps)

lemma digit_inj: "a < 10 \<Longrightarrow> b < 10 \<Longrightarrow> digit a = digit b \<Longrightarrow> a = b"
proof -
  assume "a < 10" "b < 10" "digit a = digit b"
  moreover have "distinct ''0123456789''" by simp
  ultimately show "a = b" unfolding digit_def
    by (simp add: nth_eq_iff_index_eq)
qed

lemma digit_not_minus: "d < 10 \<Longrightarrow> digit d \<noteq> CHR ''-''"
proof -
  assume "d < 10"
  then have "digit d \<in> set ''0123456789''" unfolding digit_def by (intro nth_mem) simp
  then show ?thesis by auto
qed

lemma decimal_inj: "decimal n = decimal m \<Longrightarrow> n = m"
proof (induction n arbitrary: m rule: decimal.induct)
  case (1 n)
  show ?case
  proof (cases "n < 10")
    case n: True
    show ?thesis
    proof (cases "m < 10")
      case True
      with n "1.prems" show ?thesis by (simp del: decimal.simps add: decimal_simps digit_inj)
    next
      case False
      with n "1.prems" decimal_nonempty [of "m div 10"] show ?thesis
        by (simp del: decimal.simps add: decimal_simps)
    qed
  next
    case n: False
    show ?thesis
    proof (cases "m < 10")
      case True
      with n "1.prems" decimal_nonempty [of "n div 10"] show ?thesis
        by (simp del: decimal.simps add: decimal_simps)
    next
      case False
      with n "1.prems" have eq: "decimal (n div 10) = decimal (m div 10)"
        and d: "digit (n mod 10) = digit (m mod 10)"
        by (simp_all del: decimal.simps add: decimal_simps)
      from "1.IH" [OF n eq] have "n div 10 = m div 10" .
      moreover from d have "n mod 10 = m mod 10" by (intro digit_inj) simp_all
      ultimately show ?thesis by (metis div_mult_mod_eq)
    qed
  qed
qed

lemma decimal_hd_not_minus: "hd (decimal n) \<noteq> CHR ''-''"
proof (induction n rule: decimal.induct)
  case (1 n)
  show ?case
  proof (cases "n < 10")
    case True
    then show ?thesis by (simp del: decimal.simps add: decimal_simps digit_not_minus)
  next
    case False
    with "1.IH" decimal_nonempty [of "n div 10"] show ?thesis
      by (simp del: decimal.simps add: decimal_simps)
  qed
qed

lemma str_int_inj: "str_int a = str_int b \<Longrightarrow> a = b"
proof -
  assume eq: "str_int a = str_int b"
  have neg: "hd (str_int n) = CHR ''-'' \<longleftrightarrow> n < 0" for n
    using decimal_hd_not_minus [of "nat n"] by (simp add: str_int_def)
  from eq have same: "a < 0 \<longleftrightarrow> b < 0" using neg by metis
  show "a = b"
  proof (cases "a < 0")
    case True
    with same eq have "decimal (nat (- a)) = decimal (nat (- b))" by (simp add: str_int_def)
    then have "nat (- a) = nat (- b)" by (rule decimal_inj)
    with True same show ?thesis by simp
  next
    case False
    with same eq have "decimal (nat a) = decimal (nat b)" by (simp add: str_int_def)
    then have "nat a = nat b" by (rule decimal_inj)
    with False same show ?thesis by simp
  qed
qed

lemma numbered_path_inj: "numbered_path name a ext = numbered_path name b ext \<Longrightarrow> a = b"
  by (simp add: numbered_path_def str_int_inj)

lemma free_number_exists:
  assumes "finite S"
  shows "\<exists>k\<ge>2. numbered_path name k ext \<notin> S"
proof (rule ccontr)
  assume "\<not> ?thesis"
  then have sub: "(\<lambda>k. numbered_path name k ext) ` {2..} \<subseteq> S" by auto
  have "inj_on (\<lambda>k. numbered_path name k ext) {2..}"
    by (rule inj_onI) (rule numbered_path_inj)
  moreover have "infinite {2::int ..}" by (rule infinite_Ici)
  ultimately have "infinite ((\<lambda>k. numbered_path name k ext) ` {2..})"
    by (simp add: finite_image_iff)
  with sub assms show False by (meson finite_subset)
qed

lemma unique_loop_finds:
  assumes "c \<le> k" and "numbered_path name k ext \<notin> S"
    and "\<forall>j. c \<le> j \<and> j < k \<longrightarrow> numbered_path name j ext \<in> S"
  shows "unique_loop (\<lambda>p. p \<in> S) name ext c = Some (numbered_path name k ext)"
  using assms
proof (induction "nat (k - c)" arbitrary: c)
  case 0
  then have "c = k" by simp
  with 0 show ?case by (subst unique_loop.simps) simp
next
  case (Suc n)
  then have less: "c < k" by simp
  with Suc.prems have here: "numbered_path name c ext \<in> S" by simp
  have "unique_loop (\<lambda>p. p \<in> S) name ext (c + 1) = Some (numbered_path name k ext)"
    using Suc.hyps(2) less Suc.prems by (intro Suc.hyps(1)) auto
  with here show ?case by (subst unique_loop.simps) simp
qed

section \<open>Termination of \<open>get_unique_filename\<close>\<close>

lemma unique_name_found:
  assumes "finite S"
  shows "\<exists>p. get_unique_filename (\<lambda>q. q \<in> S) base_path = Some p \<and> p \<notin> S \<and>
     (base_path \<notin> S \<longrightarrow> p = base_path) \<and>
     (base_path \<in> S \<longrightarrow>
        (\<exists>k\<ge>2. p = numbered_path (fst (splitext base_path)) k (snd (splitext base_path)) \<and>
           (\<forall>j. 2 \<le> j \<and> j < k \<longrightarrow>
              numbered_path (fst (splitext base_path)) j (snd (splitext base_path)) \<in> S)))"
proof (cases "base_path \<in> S")
  case False
  then show ?thesis by (simp add: get_unique_filename_def)
next
  case True
  obtain name ext where sp: "splitext base_path = (name, ext)" by (cases "splitext base_path")
  define P where "P k \<longleftrightarrow> 2 \<le> k \<and> numbered_path name k ext \<notin> S" for k
  obtain k0 where k0: "P k0" using free_number_exists [OF assms] unfolding P_def by blast
  define n where "n = (LEAST n. P (2 + int n))"
  have "P (2 + int (nat (k0 - 2)))" using k0 by (simp add: P_def)
  then have Pn: "P (2 + int n)" unfolding n_def by (rule LeastI)
  have least: "\<not> P (2 + int m)" if "m < n" for m
    using that not_less_Least unfolding n_def by blast
  define k where "k = 2 + int n"
  have below: "numbered_path name j ext \<in> S" if "2 \<le> j" "j < k" for j
  proof -
    have "nat (j - 2) < n" using that by (simp add: k_def)
    from least [OF this] that show ?thesis by (simp add: P_def)
  qed
  have "unique_loop (\<lambda>p. p \<in> S) name ext 2 = Some (numbered_path name k ext)"
    using Pn below by (intro unique_loop_finds) (auto simp: P_def k_def)
  then have "get_unique_filename (\<lambda>q. q \<in> S) base_path = Some (numbered_path name k ext)"
    using True by (simp add: get_unique_filename_def sp)
  moreover have "numbered_path name k ext \<notin> S" "2 \<le> k" using Pn by (simp_all add: P_def k_def)
  ultimately show ?thesis using True below by (auto simp: sp)
qed

text \<open>
  C10. On a file system with finitely many paths \<open>get_unique_filename\<close> returns. It
  returns \<open>base_path\<close> when that path does not exist, and otherwise the numbered path
  \<open>name_k ext\<close> of the least \<open>k\<close> from 2 on that does not exist. The path returned does
  not exist.
\<close>

theorem get_unique_filename_returns:
  assumes "finite S"
  shows "\<exists>p. get_unique_filename (\<lambda>q. q \<in> S) base_path = Some p \<and> p \<notin> S \<and>
     (base_path \<notin> S \<longrightarrow> p = base_path) \<and>
     (base_path \<in> S \<longrightarrow>
        (\<exists>k\<ge>2. p = numbered_path (fst (splitext base_path)) k (snd (splitext base_path)) \<and>
           (\<forall>j. 2 \<le> j \<and> j < k \<longrightarrow>
              numbered_path (fst (splitext base_path)) j (snd (splitext base_path)) \<in> S)))"
  using assms by (rule unique_name_found)

theorem get_unique_filename_returns_witness:
  "finite {''/o/w.png'', ''/o/w_2.png''} \<and>
   get_unique_filename (\<lambda>q. q \<in> {''/o/w.png'', ''/o/w_2.png''}) ''/o/w.png'' = Some ''/o/w_3.png''"
  using get_unique_filename_returns [of "{''/o/w.png'', ''/o/w_2.png''}" "''/o/w.png''"]
  by (simp add: get_unique_filename_def splitext_def rfind_def unique_loop.simps numbered_path_def str_int_def digit_def Let_def)

section \<open>The preview projection\<close>

lemma round_half_even_nonneg: "0 \<le> x \<Longrightarrow> 0 \<le> round_half_even x"
  by (simp add: round_half_even_def Let_def)

lemma fl_nonneg:
  assumes "0 \<le> x" and "fl x = Finite y"
  shows "0 \<le> y"
proof (cases "x = 0")
  case True
  with assms(2) show ?thesis by (simp add: fl_zero)
next
  case False
  define q where "q = pow2 (max (ilog2 x) (- 1022) - 52)"
  have q: "0 < q" unfolding q_def by (rule pow2_pos)
  have "0 \<le> x / q" using assms(1) q by simp
  then have "0 \<le> round_half_even (x / q)" by (rule round_half_even_nonneg)
  then have "0 \<le> rat_of_int (round_half_even (x / q)) * q" using q by simp
  moreover from assms(2) False have "y = rat_of_int (round_half_even (x / q)) * q"
    by (simp add: fl_def Let_def q_def split: if_splits)
  ultimately show ?thesis by simp
qed

lemma trunc_nonneg: "0 \<le> x \<Longrightarrow> trunc x = \<lfloor>x\<rfloor>"
  by (simp add: trunc_def)

lemma py_int_floor:
  assumes "0 \<le> x"
  shows "py_int (fl x) = py_floor (fl x)"
proof (cases "fl x")
  case (Finite y)
  with assms have "0 \<le> y" by (auto intro: fl_nonneg)
  with Finite show ?thesis by (simp add: trunc_nonneg)
qed simp_all


lemma coord_unfold:
  "preview_coord v (Finite f) offset =
     (case fl (of_int v) of
        Finite y \<Rightarrow> (case py_int (fl (y * f)) of Inl e \<Rightarrow> Inl e | Inr c \<Rightarrow> Inr (c + offset))
      | _ \<Rightarrow> Inl OverflowError)"
  "floor_coord v (Finite f) offset =
     (case fl (of_int v) of
        Finite y \<Rightarrow> (case py_floor (fl (y * f)) of Inl e \<Rightarrow> Inl e | Inr c \<Rightarrow> Inr (c + offset))
      | _ \<Rightarrow> Inl OverflowError)"
  by (simp_all add: preview_coord_def floor_coord_def int_mul_float_def float_of_int_def
      split: pyfloat.splits)

lemma preview_coord_floor:
  assumes "0 \<le> v" and "0 \<le> f"
  shows "preview_coord v (Finite f) offset = floor_coord v (Finite f) offset"
proof (cases "fl (of_int v)")
  case (Finite y)
  have "(0::rat) \<le> of_int v" using assms(1) by simp
  then have "0 \<le> y" using Finite by (rule fl_nonneg)
  then have "0 \<le> y * f" using assms(2) by simp
  then have eq: "py_int (fl (y * f)) = py_floor (fl (y * f))" by (rule py_int_floor)
  show ?thesis unfolding coord_unfold Finite pyfloat.case eq ..
next
  case (Inf b)
  show ?thesis unfolding coord_unfold Inf pyfloat.case ..
next
  case NaN
  show ?thesis unfolding coord_unfold NaN pyfloat.case ..
qed


lemma ceiling_rat_numeral:
  "\<lceil>- (numeral a / numeral b) :: rat\<rceil> = - (numeral a div numeral b)"
  "\<lceil>- (1 / numeral b) :: rat\<rceil> = - (1 div numeral b)"
  by (simp_all add: ceiling_def floor_rat_numeral)

lemmas project_eval = project_def floor_project_def preview_coord_def floor_coord_def
  int_mul_float_def float_of_int_def trunc_def new_screen_def

text \<open>
  C9. For a screen with non-negative \<open>x\<close>, \<open>y\<close>, \<open>x + width\<close> and \<open>y + height\<close> and a
  non-negative scale factor, the coordinates of the preview are the floors of the scaled
  coordinates plus the offsets, and the projection raises exactly when the floor formula
  has no value (a product that is not finite).
\<close>

theorem project_floor:
  assumes "0 \<le> f" and "0 \<le> screen_x s" and "0 \<le> screen_y s"
    and "0 \<le> screen_x s + width s" and "0 \<le> screen_y s + height s"
  shows "project s (Finite f) x_offset y_offset = floor_project s (Finite f) x_offset y_offset"
  unfolding project_def floor_project_def
  by (simp only: preview_coord_floor [OF assms(2) assms(1)] preview_coord_floor [OF assms(3) assms(1)]
      preview_coord_floor [OF assms(4) assms(1)] preview_coord_floor [OF assms(5) assms(1)])

theorem project_floor_witness:
  "project ((new_screen 0)\<lparr>screen_x := 3, screen_y := 5, width := 1919, height := 1079\<rparr>) (Finite (3 / 4)) 10 20
     = Inr (12, 23, 1451, 833) \<and>
   floor_project ((new_screen 0)\<lparr>screen_x := 3, screen_y := 5, width := 1919, height := 1079\<rparr>) (Finite (3 / 4)) 10 20
     = Inr (12, 23, 1451, 833)"
  using project_floor [of "3 / 4" "(new_screen 0)\<lparr>screen_x := 3, screen_y := 5, width := 1919, height := 1079\<rparr>" 10 20]
  by (simp add: project_eval fl_at [of 1] fl_at [of 0] fl_at [of 2] fl_at [of 10] fl_at [of 9] fl_at [of 8] fl_eval)

text \<open>
  \<open>int\<close> truncates toward zero: a screen at \<open>x = -1\<close> under the factor 0.5 is drawn from
  \<open>int(-0.5) = 0\<close>, and the floor is \<open>-1\<close>.
\<close>

theorem project_negative_not_floor:
  "project ((new_screen 0)\<lparr>screen_x := - 1\<rparr>) (Finite (1 / 2)) 0 0 = Inr (0, 0, 959, 540) \<and>
   floor_project ((new_screen 0)\<lparr>screen_x := - 1\<rparr>) (Finite (1 / 2)) 0 0 = Inr (- 1, 0, 959, 540)"
  by (simp add: project_eval fl_zero fl_at [of 0] fl_at [of "- 1"] fl_at [of 10] fl_at [of 9] fl_eval ceiling_rat_numeral)

section \<open>Editing a screen and the reference\<close>

lemma same_but_size_refl: "same_but_size s s"
  by (simp add: same_but_size_def)

lemma same_but_size_trans: "same_but_size s t \<Longrightarrow> same_but_size t u \<Longrightarrow> same_but_size s u"
  unfolding same_but_size_def by (metis ScreenConfig.surjective ScreenConfig.update_convs(6) ScreenConfig.update_convs(7) ScreenConfig.select_convs)

lemma same_but_size_fields:
  assumes "same_but_size s t"
  shows "screen_id t = screen_id s" "ratio_w t = ratio_w s" "ratio_h t = ratio_h s"
    "screen_x t = screen_x s" "screen_y t = screen_y s" "color t = color s"
proof -
  from assms have eq: "t = s\<lparr>width := width t, height := height t\<rparr>" by (simp add: same_but_size_def)
  show "screen_id t = screen_id s" by (subst eq) simp
  show "ratio_w t = ratio_w s" by (subst eq) simp
  show "ratio_h t = ratio_h s" by (subst eq) simp
  show "screen_x t = screen_x s" by (subst eq) simp
  show "screen_y t = screen_y s" by (subst eq) simp
  show "color t = color s" by (subst eq) simp
qed

lemma resolution_from_factor_same:
  "same_but_size s (fst (resolution_from_factor s ref_width ref_height factor))"
  by (simp add: resolution_from_factor_def same_but_size_def Let_def split: sum.splits)

lemma calculate_resolution_same:
  "same_but_size s (fst (calculate_resolution s ref_width ref_height scale_percent))"
  by (simp add: calculate_resolution_def resolution_from_factor_same same_but_size_refl
      split: sum.splits)

lemma recalculate_loop_same:
  "same_but_size (objs r) (fst (recalculate_loop rs objs ref_width ref_height scale_percent) r)"
proof (induction rs arbitrary: objs)
  case Nil
  show ?case by (simp add: same_but_size_refl)
next
  case (Cons a rs)
  obtain s e where c: "calculate_resolution (objs a) ref_width ref_height scale_percent = (s, e)"
    by (cases "calculate_resolution (objs a) ref_width ref_height scale_percent")
  have s: "same_but_size (objs a) s"
    using calculate_resolution_same [of "objs a" ref_width ref_height scale_percent] c by simp
  have step: "same_but_size (objs r) ((objs(a := s)) r)"
    using s by (simp add: same_but_size_refl)
  show ?case
  proof (cases e)
    case None
    have "same_but_size ((objs(a := s)) r)
        (fst (recalculate_loop rs (objs(a := s)) ref_width ref_height scale_percent) r)"
      by (rule Cons.IH)
    with step have "same_but_size (objs r)
        (fst (recalculate_loop rs (objs(a := s)) ref_width ref_height scale_percent) r)"
      by (rule same_but_size_trans)
    with c None show ?thesis by simp
  next
    case (Some err)
    with c step show ?thesis by simp
  qed
qed

lemma recalculate_all_frame:
  "screens (fst (recalculate_all_resolutions app)) = screens app"
  "global_config (fst (recalculate_all_resolutions app)) = global_config app"
  "created (fst (recalculate_all_resolutions app)) = created app"
  "app_image (fst (recalculate_all_resolutions app)) = app_image app"
  by (simp_all add: recalculate_all_resolutions_def Let_def split: prod.splits option.splits)

lemma recalculate_all_objects:
  "same_but_size (objects app r) (objects (fst (recalculate_all_resolutions app)) r)"
proof -
  let ?g = "global_config app"
  obtain objs e where l: "recalculate_loop (screens app) (objects app)
      (cfg_ref_width ?g) (cfg_ref_height ?g) (cfg_scale_percent ?g) = (objs, e)"
    by (cases "recalculate_loop (screens app) (objects app)
      (cfg_ref_width ?g) (cfg_ref_height ?g) (cfg_scale_percent ?g)")
  have "same_but_size (objects app r) (objs r)"
    using recalculate_loop_same [of "objects app" r "screens app"
        "cfg_ref_width ?g" "cfg_ref_height ?g" "cfg_scale_percent ?g"] l by simp
  moreover have "objects (fst (recalculate_all_resolutions app)) = objs"
    using l by (simp add: recalculate_all_resolutions_def Let_def split: option.splits)
  ultimately show ?thesis by simp
qed

lemma update_config_rejected:
  assumes "invalid_screen_edit rw_e rh_e x_e y_e"
  shows "update_config app r rw_e rh_e x_e y_e = (app, None)"
  using assms by (auto simp: invalid_screen_edit_def update_config_def split: option.splits)

lemma update_config_accepted:
  assumes "\<not> invalid_screen_edit rw_e rh_e x_e y_e"
  shows "Some (ratio_w (objects (fst (update_config app r rw_e rh_e x_e y_e)) r)) = rw_e \<and>
         Some (ratio_h (objects (fst (update_config app r rw_e rh_e x_e y_e)) r)) = rh_e \<and>
         Some (screen_x (objects (fst (update_config app r rw_e rh_e x_e y_e)) r)) = x_e \<and>
         Some (screen_y (objects (fst (update_config app r rw_e rh_e x_e y_e)) r)) = y_e"
proof -
  from assms obtain rw rh x y where e: "rw_e = Some rw" "rh_e = Some rh" "x_e = Some x" "y_e = Some y"
    and pos: "0 < rw" "0 < rh"
    by (auto simp: invalid_screen_edit_def split: option.splits)
  define app1 where "app1 = app\<lparr>objects := (objects app)
      (r := (objects app r)\<lparr>ratio_w := rw, ratio_h := rh, screen_x := x, screen_y := y\<rparr>)\<rparr>"
  have "fst (update_config app r rw_e rh_e x_e y_e) = fst (recalculate_all_resolutions app1)"
    using pos by (simp add: update_config_def e app1_def split: prod.splits option.splits error.splits)
  moreover have "same_but_size (objects app1 r) (objects (fst (recalculate_all_resolutions app1)) r)"
    by (rule recalculate_all_objects)
  ultimately show ?thesis
    by (simp add: same_but_size_fields e app1_def)
qed

lemma apply_reference_rejected:
  assumes "invalid_reference_edit w_e h_e"
  shows "apply_reference app w_e h_e = (app, None)"
  using assms by (auto simp: invalid_reference_edit_def apply_reference_def split: option.splits)

lemma apply_reference_accepted:
  assumes "\<not> invalid_reference_edit w_e h_e"
  shows "Some (cfg_ref_width (global_config (fst (apply_reference app w_e h_e)))) = w_e \<and>
         Some (cfg_ref_height (global_config (fst (apply_reference app w_e h_e)))) = h_e"
proof -
  from assms obtain w h where e: "w_e = Some w" "h_e = Some h" and pos: "0 < w" "0 < h"
    by (auto simp: invalid_reference_edit_def split: option.splits)
  define app1 where "app1 = app\<lparr>global_config := (global_config app)
      \<lparr>cfg_ref_width := w, cfg_ref_height := h\<rparr>\<rparr>"
  have "fst (apply_reference app w_e h_e) = fst (recalculate_all_resolutions app1)"
    using pos by (simp add: apply_reference_def e app1_def split: prod.splits option.splits error.splits)
  then show ?thesis by (simp add: recalculate_all_frame e app1_def)
qed

text \<open>
  C7. An edit of a screen with an entry that is not an integer or with a ratio that is
  not positive, and an edit of the reference with an entry that is not an integer or a
  dimension that is not positive, leaves the whole state as it was and raises nothing.
  Every other edit sets all of \<open>ratio_w\<close>, \<open>ratio_h\<close>, \<open>x\<close>, \<open>y\<close> of the screen,
  respectively both reference dimensions, also when the recalculation that follows raises.
\<close>

theorem edit_rejected_or_applied:
  "(invalid_screen_edit rw_e rh_e x_e y_e \<longrightarrow> update_config app r rw_e rh_e x_e y_e = (app, None)) \<and>
   (\<not> invalid_screen_edit rw_e rh_e x_e y_e \<longrightarrow>
      Some (ratio_w (objects (fst (update_config app r rw_e rh_e x_e y_e)) r)) = rw_e \<and>
      Some (ratio_h (objects (fst (update_config app r rw_e rh_e x_e y_e)) r)) = rh_e \<and>
      Some (screen_x (objects (fst (update_config app r rw_e rh_e x_e y_e)) r)) = x_e \<and>
      Some (screen_y (objects (fst (update_config app r rw_e rh_e x_e y_e)) r)) = y_e) \<and>
   (invalid_reference_edit w_e h_e \<longrightarrow> apply_reference app w_e h_e = (app, None)) \<and>
   (\<not> invalid_reference_edit w_e h_e \<longrightarrow>
      Some (cfg_ref_width (global_config (fst (apply_reference app w_e h_e)))) = w_e \<and>
      Some (cfg_ref_height (global_config (fst (apply_reference app w_e h_e)))) = h_e)"
  using update_config_rejected update_config_accepted apply_reference_rejected
    apply_reference_accepted by blast


theorem edit_rejected_or_applied_witness:
  "invalid_screen_edit (Some 0) (Some 9) (Some 0) None \<and>
   update_config (fst (add_screen init_app)) 0 (Some 0) (Some 9) (Some 0) None
     = (fst (add_screen init_app), None) \<and>
   \<not> invalid_screen_edit (Some 21) (Some 9) (Some 5) (Some (- 7)) \<and>
   ratio_w (objects (fst (update_config (fst (add_screen init_app)) 0
      (Some 21) (Some 9) (Some 5) (Some (- 7)))) 0) = 21 \<and>
   screen_y (objects (fst (update_config (fst (add_screen init_app)) 0
      (Some 21) (Some 9) (Some 5) (Some (- 7)))) 0) = - 7 \<and>
   invalid_reference_edit (Some 1920) (Some 0) \<and>
   apply_reference (fst (add_screen init_app)) (Some 1920) (Some 0)
     = (fst (add_screen init_app), None) \<and>
   \<not> invalid_reference_edit (Some 1920) (Some 1080) \<and>
   cfg_ref_width (global_config (fst (apply_reference (fst (add_screen init_app))
      (Some 1920) (Some 1080)))) = 1920"
  using edit_rejected_or_applied [of "Some 0" "Some 9" "Some 0" None "fst (add_screen init_app)" 0
      "Some 1920" "Some 0"]
    edit_rejected_or_applied [of "Some 21" "Some 9" "Some 5" "Some (- 7)" "fst (add_screen init_app)" 0
      "Some 1920" "Some 1080"]
  by (simp add: invalid_screen_edit_def invalid_reference_edit_def)

section \<open>Deleting a screen\<close>

lemma index_of_nth:
  "distinct xs \<Longrightarrow> i < length xs \<Longrightarrow> index_of (xs ! i) xs = Some i"
proof (induction xs arbitrary: i)
  case Nil
  then show ?case by simp
next
  case (Cons b bs)
  show ?case
  proof (cases i)
    case 0
    then show ?thesis by simp
  next
    case (Suc k)
    with Cons.prems have k: "k < length bs" and d: "distinct bs" and nb: "b \<notin> set bs" by simp_all
    from k nb have "bs ! k \<noteq> b" by (metis nth_mem)
    moreover have "index_of (bs ! k) bs = Some k" using d k by (rule Cons.IH)
    ultimately show ?thesis using Suc by simp
  qed
qed

lemma index_of_absent: "a \<notin> set xs \<Longrightarrow> index_of a xs = None"
  by (induction xs) auto

lemma distinct_pop: "distinct xs \<Longrightarrow> distinct (pop i xs)"
  by (simp add: pop_def set_take_disj_set_drop_if_distinct)

lemma set_pop: "set (pop i xs) \<subseteq> set xs"
  unfolding pop_def using set_take_subset [of i xs] set_drop_subset [of "Suc i" xs] by auto

lemma renumber_outside: "r \<notin> set rs \<Longrightarrow> renumber rs k objs r = objs r"
  by (induction rs arbitrary: k objs) auto

lemma renumber_nth:
  "distinct rs \<Longrightarrow> j < length rs \<Longrightarrow>
   renumber rs k objs (rs ! j) =
     (objs (rs ! j))\<lparr>screen_id := k + j, color := generate_color (k + j)\<rparr>"
proof (induction rs arbitrary: k objs j)
  case Nil
  then show ?case by simp
next
  case (Cons r rs)
  let ?objs = "objs(r := (objs r)\<lparr>screen_id := k, color := generate_color k\<rparr>)"
  from Cons.prems have d: "distinct rs" and nr: "r \<notin> set rs" by simp_all
  show ?case
  proof (cases j)
    case 0
    then show ?thesis using nr by (simp add: renumber_outside)
  next
    case (Suc m)
    with Cons.prems have m: "m < length rs" by simp
    with nr have ne: "rs ! m \<noteq> r" by (metis nth_mem)
    have "renumber rs (Suc k) ?objs (rs ! m) =
        (?objs (rs ! m))\<lparr>screen_id := Suc k + m, color := generate_color (Suc k + m)\<rparr>"
      using d m by (rule Cons.IH)
    then show ?thesis using Suc ne by simp
  qed
qed

lemma delete_screen_absent:
  "screen_config \<notin> set (screens app) \<Longrightarrow> delete_screen app screen_config = app"
  by (simp add: delete_screen_def index_of_absent)

lemma add_screen_frame:
  "screens (fst (add_screen app)) = screens app @ [created app]"
  "created (fst (add_screen app)) = Suc (created app)"
  by (simp_all add: add_screen_def Let_def recalculate_all_frame)

lemma screens_wf_init: "screens_wf init_app"
  by (simp add: screens_wf_def init_app_def)

lemma screens_wf_add_screen: "screens_wf app \<Longrightarrow> screens_wf (fst (add_screen app))"
  by (auto simp: screens_wf_def add_screen_frame list_all_iff)

lemma index_of_Some: "index_of a xs = Some i \<Longrightarrow> i < length xs \<and> xs ! i = a"
  by (induction xs arbitrary: i) (auto split: if_splits)

lemma screens_wf_delete_screen:
  assumes "screens_wf app"
  shows "screens_wf (delete_screen app screen_config)"
proof (cases "index_of screen_config (screens app)")
  case None
  with assms show ?thesis by (simp add: delete_screen_def)
next
  case (Some i)
  have "screens (delete_screen app screen_config) = pop i (screens app)"
    and "created (delete_screen app screen_config) = created app"
    using Some by (simp_all add: delete_screen_def Let_def recalculate_all_frame)
  moreover have "distinct (pop i (screens app))"
    using assms by (simp add: screens_wf_def distinct_pop)
  moreover have "list_all (\<lambda>r. r < created app) (pop i (screens app))"
    using assms set_pop [of i "screens app"] by (auto simp: screens_wf_def list_all_iff)
  ultimately show ?thesis by (simp add: screens_wf_def)
qed

text \<open>The list never repeats an object: the invariant holds at the start and both operations keep it.\<close>

lemma four_screens_list: "screens four_screens = [0, 1, 2, 3]"
  by (simp add: four_screens_def add_screen_frame init_app_def)

text \<open>
  C6. In a screen list without a repeated object, deleting the screen at index \<open>i\<close>
  leaves the other entries in their order, gives each of them its new position as id and
  the colour of that id, and keeps their ratios and positions.
\<close>

theorem delete_screen_renumbers:
  assumes "distinct (screens app)" and "i < length (screens app)"
  shows "screens (delete_screen app (screens app ! i)) =
           take i (screens app) @ drop (Suc i) (screens app) \<and>
         (\<forall>j < length (screens (delete_screen app (screens app ! i))).
            screen_id (objects (delete_screen app (screens app ! i))
              (screens (delete_screen app (screens app ! i)) ! j)) = j \<and>
            color (objects (delete_screen app (screens app ! i))
              (screens (delete_screen app (screens app ! i)) ! j)) = generate_color j) \<and>
         (\<forall>r \<in> set (screens (delete_screen app (screens app ! i))).
            ratio_w (objects (delete_screen app (screens app ! i)) r) = ratio_w (objects app r) \<and>
            ratio_h (objects (delete_screen app (screens app ! i)) r) = ratio_h (objects app r) \<and>
            screen_x (objects (delete_screen app (screens app ! i)) r) = screen_x (objects app r) \<and>
            screen_y (objects (delete_screen app (screens app ! i)) r) = screen_y (objects app r))"
proof -
  define remaining where "remaining = pop i (screens app)"
  define app1 where "app1 = app\<lparr>screens := remaining,
      objects := renumber remaining 0 (objects app)\<rparr>"
  have del: "delete_screen app (screens app ! i) = fst (recalculate_all_resolutions app1)"
    using index_of_nth [OF assms]
    by (simp add: delete_screen_def Let_def remaining_def app1_def)
  have scr: "screens (delete_screen app (screens app ! i)) = remaining"
    by (simp add: del recalculate_all_frame app1_def)
  have dist: "distinct remaining" unfolding remaining_def using assms(1) by (rule distinct_pop)
  have ids: "screen_id (objects (delete_screen app (screens app ! i)) (remaining ! j)) = j \<and>
      color (objects (delete_screen app (screens app ! i)) (remaining ! j)) = generate_color j"
    if "j < length remaining" for j
  proof -
    have same: "same_but_size (objects app1 (remaining ! j))
        (objects (delete_screen app (screens app ! i)) (remaining ! j))"
      unfolding del by (rule recalculate_all_objects)
    have "objects app1 (remaining ! j) =
        (objects app (remaining ! j))\<lparr>screen_id := 0 + j, color := generate_color (0 + j)\<rparr>"
      using renumber_nth [OF dist that] by (simp add: app1_def)
    then have "screen_id (objects app1 (remaining ! j)) = j"
      and "color (objects app1 (remaining ! j)) = generate_color j" by simp_all
    with same_but_size_fields(1,6) [OF same] show ?thesis by simp
  qed
  have keep: "ratio_w (objects (delete_screen app (screens app ! i)) r) = ratio_w (objects app r) \<and>
      ratio_h (objects (delete_screen app (screens app ! i)) r) = ratio_h (objects app r) \<and>
      screen_x (objects (delete_screen app (screens app ! i)) r) = screen_x (objects app r) \<and>
      screen_y (objects (delete_screen app (screens app ! i)) r) = screen_y (objects app r)"
    if "r \<in> set remaining" for r
  proof -
    from that obtain j where j: "j < length remaining" and r: "r = remaining ! j"
      by (auto simp: in_set_conv_nth)
    have same: "same_but_size (objects app1 r) (objects (delete_screen app (screens app ! i)) r)"
      unfolding del by (rule recalculate_all_objects)
    have "objects app1 r =
        (objects app r)\<lparr>screen_id := 0 + j, color := generate_color (0 + j)\<rparr>"
      using renumber_nth [OF dist j] by (simp add: app1_def r)
    then have "ratio_w (objects app1 r) = ratio_w (objects app r)"
      and "ratio_h (objects app1 r) = ratio_h (objects app r)"
      and "screen_x (objects app1 r) = screen_x (objects app r)"
      and "screen_y (objects app1 r) = screen_y (objects app r)" by simp_all
    with same_but_size_fields(2,3,4,5) [OF same] show ?thesis by simp
  qed
  have order: "remaining = take i (screens app) @ drop (Suc i) (screens app)"
    by (simp add: remaining_def pop_def)
  show ?thesis unfolding scr using ids keep order by blast
qed

theorem delete_screen_renumbers_witness:
  "distinct (screens four_screens) \<and> 1 < length (screens four_screens) \<and>
   screens (delete_screen four_screens 1) = [0, 2, 3] \<and>
   screen_id (objects (delete_screen four_screens 1) 0) = 0 \<and>
   screen_id (objects (delete_screen four_screens 1) 2) = 1 \<and>
   screen_id (objects (delete_screen four_screens 1) 3) = 2"
proof -
  have d: "distinct (screens four_screens)" and l: "1 < length (screens four_screens)"
    by (simp_all add: four_screens_list)
  have at: "screens four_screens ! 1 = 1" by (simp add: four_screens_list)
  note r = delete_screen_renumbers [OF d l, unfolded at]
  from r have s: "screens (delete_screen four_screens 1) = [0, 2, 3]"
    by (simp add: four_screens_list)
  from r have "\<forall>j<length (screens (delete_screen four_screens 1)).
      screen_id (objects (delete_screen four_screens 1)
        (screens (delete_screen four_screens 1) ! j)) = j"
    by blast
  then have ids: "j < length [0::nat, 2, 3] \<Longrightarrow>
      screen_id (objects (delete_screen four_screens 1) ([0, 2, 3] ! j)) = j" for j
    unfolding s by blast
  have "screen_id (objects (delete_screen four_screens 1) 0) = 0"
    "screen_id (objects (delete_screen four_screens 1) 2) = 1"
    "screen_id (objects (delete_screen four_screens 1) 3) = 2"
    using ids [of 0] ids [of 1] ids [of 2] by simp_all
  then show ?thesis using d l s by simp
qed

section \<open>Paths of the exported files\<close>

lemma rfind_absent: "c \<notin> set p \<Longrightarrow> rfind c p = - 1"
  by (simp add: rfind_def)

lemma rfind_append_absent: "c \<notin> set ys \<Longrightarrow> rfind c (xs @ ys) = rfind c xs"
proof (cases "c \<in> set xs")
  case False
  assume "c \<notin> set ys"
  with False show ?thesis by (simp add: rfind_def)
next
  case True
  assume a: "c \<notin> set ys"
  then have "takeWhile (\<lambda>d. d \<noteq> c) (rev ys @ rev xs) = rev ys @ takeWhile (\<lambda>d. d \<noteq> c) (rev xs)"
    by (intro takeWhile_append2) auto
  with True show ?thesis by (simp add: rfind_def)
qed

lemma rfind_append_present:
  "c \<in> set ys \<Longrightarrow> rfind c (xs @ ys) = int (length xs) + rfind c ys"
proof -
  assume a: "c \<in> set ys"
  then have "\<exists>x \<in> set (rev ys). \<not> x \<noteq> c" by simp
  then obtain x where "x \<in> set (rev ys)" "\<not> x \<noteq> c" by blast
  then have "takeWhile (\<lambda>d. d \<noteq> c) (rev ys @ rev xs) = takeWhile (\<lambda>d. d \<noteq> c) (rev ys)"
    by (rule takeWhile_append1)
  with a show ?thesis by (simp add: rfind_def)
qed

lemma rfind_Cons_last: "c \<notin> set ys \<Longrightarrow> rfind c (c # ys) = 0"
proof -
  assume "c \<notin> set ys"
  then have "takeWhile (\<lambda>d. d \<noteq> c) (rev ys @ [c]) = rev ys @ takeWhile (\<lambda>d. d \<noteq> c) [c]"
    by (intro takeWhile_append2) auto
  then show ?thesis by (simp add: rfind_def)
qed

lemma rfind_less: "rfind c p < int (length p)"
  by (simp add: rfind_def)

lemma rfind_lower: "- 1 \<le> rfind c p"
proof -
  have "length (takeWhile (\<lambda>d. d \<noteq> c) (rev p)) \<le> length (rev p)"
    by (rule length_takeWhile_le)
  then show ?thesis by (auto simp: rfind_def)
qed

lemma rfind_present_nonneg: "c \<in> set p \<Longrightarrow> 0 \<le> rfind c p"
proof -
  assume "c \<in> set p"
  then obtain xs ys where p: "p = xs @ c # ys" and "c \<notin> set ys" by (meson split_list_last)
  then have "rfind c p = int (length xs) + rfind c (c # ys)" by (simp add: rfind_append_present)
  with \<open>c \<notin> set ys\<close> show ?thesis by (simp add: rfind_Cons_last)
qed

lemma rfind_split:
  "c \<notin> set ys \<Longrightarrow> rfind c (xs @ c # ys) = int (length xs)"
  by (simp add: rfind_append_present rfind_Cons_last)

text \<open>The extension that \<open>splitext\<close> returns is empty or a dot followed by neither dot nor slash.\<close>

lemma splitext_ext:
  "snd (splitext p) = [] \<or>
   (\<exists>rest. snd (splitext p) = CHR ''.'' # rest \<and> CHR ''.'' \<notin> set rest \<and> CHR ''/'' \<notin> set rest)"
proof (cases "snd (splitext p) = []")
  case True
  then show ?thesis ..
next
  case False
  then have lt: "rfind CHR ''/'' p < rfind CHR ''.'' p"
    and ext: "snd (splitext p) = drop (nat (rfind CHR ''.'' p)) p"
    by (auto simp: splitext_def Let_def split: if_splits)
  have "CHR ''.'' \<in> set p"
  proof (rule ccontr)
    assume "CHR ''.'' \<notin> set p"
    then have "rfind CHR ''.'' p = - 1" by (rule rfind_absent)
    moreover have "- 1 \<le> rfind CHR ''/'' p" by (rule rfind_lower)
    ultimately show False using lt by simp
  qed
  then obtain xs ys where p: "p = xs @ CHR ''.'' # ys" and nd: "CHR ''.'' \<notin> set ys"
    by (meson split_list_last)
  have dot: "rfind CHR ''.'' p = int (length xs)" unfolding p using nd by (rule rfind_split)
  have e: "snd (splitext p) = CHR ''.'' # ys" by (simp add: ext dot) (simp add: p)
  have "CHR ''/'' \<notin> set ys"
  proof
    assume "CHR ''/'' \<in> set ys"
    then have "CHR ''/'' \<in> set (CHR ''.'' # ys)" by simp
    then have "rfind CHR ''/'' p = int (length xs) + rfind CHR ''/'' (CHR ''.'' # ys)"
      unfolding p by (rule rfind_append_present)
    moreover have "rfind CHR ''/'' (CHR ''.'' # ys) = 1 + rfind CHR ''/'' ys"
      using rfind_append_present [OF \<open>CHR ''/'' \<in> set ys\<close>, of "[CHR ''.'']"] by simp
    moreover have "0 \<le> rfind CHR ''/'' ys"
      using \<open>CHR ''/'' \<in> set ys\<close> by (rule rfind_present_nonneg)
    ultimately show False using lt dot by simp
  qed
  with e nd show ?thesis by simp
qed

lemma digit_no_sep: "d < 10 \<Longrightarrow> digit d \<noteq> CHR ''.'' \<and> digit d \<noteq> CHR ''/''"
proof -
  assume "d < 10"
  then have "digit d \<in> set ''0123456789''" unfolding digit_def by (intro nth_mem) simp
  then show ?thesis by auto
qed

lemma decimal_no_sep: "CHR ''.'' \<notin> set (decimal n) \<and> CHR ''/'' \<notin> set (decimal n)"
proof (induction n rule: decimal.induct)
  case (1 n)
  show ?case
  proof (cases "n < 10")
    case True
    then show ?thesis using digit_no_sep [of n]
      by (simp del: decimal.simps add: decimal_simps) metis
  next
    case False
    have "n mod 10 < 10" by simp
    from digit_no_sep [OF this] "1.IH" [OF False] False show ?thesis
      by (simp del: decimal.simps add: decimal_simps) metis
  qed
qed

lemma str_int_no_sep: "CHR ''.'' \<notin> set (str_int n) \<and> CHR ''/'' \<notin> set (str_int n)"
proof (cases "n < 0")
  case True
  then have "str_int n = CHR ''-'' # decimal (nat (- n))" by (simp add: str_int_def)
  then show ?thesis using decimal_no_sep [of "nat (- n)"] by simp
next
  case False
  then have "str_int n = decimal (nat n)" by (simp add: str_int_def)
  then show ?thesis using decimal_no_sep [of "nat n"] by simp
qed

lemma output_name_chars:
  "CHR ''.'' \<notin> set (output_name s)" "CHR ''/'' \<notin> set (output_name s)"
proof -
  have w: "CHR ''.'' \<notin> set ''wallpaper_screen_''" "CHR ''/'' \<notin> set ''wallpaper_screen_''"
    by simp_all
  have m: "CHR ''.'' \<notin> set ''-''" "CHR ''/'' \<notin> set ''-''" by simp_all
  have eq: "set (output_name s) =
      set ''wallpaper_screen_'' \<union> set (str_int (ratio_w s)) \<union> set ''-'' \<union> set (str_int (ratio_h s))"
    unfolding output_name_def set_append by blast
  show "CHR ''.'' \<notin> set (output_name s)"
    unfolding eq using w(1) m(1) str_int_no_sep [of "ratio_w s"] str_int_no_sep [of "ratio_h s"]
    by blast
  show "CHR ''/'' \<notin> set (output_name s)"
    unfolding eq using w(2) m(2) str_int_no_sep [of "ratio_w s"] str_int_no_sep [of "ratio_h s"]
    by blast
qed

lemma output_name_hd: "\<exists>t. output_name s = CHR ''w'' # t"
  by (simp add: output_name_def)

lemma join_relative:
  assumes "folder \<noteq> []" and "\<exists>t. b = CHR ''w'' # t"
  shows "\<exists>pre. join folder b = pre @ CHR ''/'' # b \<and> (\<forall>c. join folder (b @ c) = pre @ CHR ''/'' # b @ c)"
proof -
  from assms(2) obtain t where b: "b = CHR ''w'' # t" ..
  show ?thesis
  proof (cases "last folder = CHR ''/''")
    case True
    with assms(1) have f: "folder = butlast folder @ [CHR ''/'']"
      by (metis append_butlast_last_id)
    have "join folder (b @ c) = folder @ b @ c" for c
      using True by (simp add: join_def b)
    then have "join folder (b @ c) = butlast folder @ CHR ''/'' # b @ c" for c
      using f by (metis append.assoc append_Cons append_Nil)
    from this [of "[]"] this show ?thesis by auto
  next
    case False
    have "join folder (b @ c) = folder @ CHR ''/'' # b @ c" for c
      using False assms(1) by (simp add: join_def b)
    from this [of "[]"] this show ?thesis by auto
  qed
qed

lemma splitext_built:
  assumes nodot: "CHR ''.'' \<notin> set stem" and noslash: "CHR ''/'' \<notin> set stem"
    and stem: "stem = CHR ''w'' # t"
    and ext: "ext = [] \<or>
      (\<exists>rest. ext = CHR ''.'' # rest \<and> CHR ''.'' \<notin> set rest \<and> CHR ''/'' \<notin> set rest)"
  shows "splitext (pre @ CHR ''/'' # stem @ ext) = (pre @ CHR ''/'' # stem, ext)"
  using ext
proof
  assume e: "ext = []"
  have sep: "rfind CHR ''/'' (pre @ CHR ''/'' # stem) = int (length pre)"
    using noslash by (rule rfind_split)
  have "rfind CHR ''.'' (pre @ CHR ''/'' # stem) = rfind CHR ''.'' pre"
    using nodot by (intro rfind_append_absent) simp
  then have "rfind CHR ''.'' (pre @ CHR ''/'' # stem) < int (length pre)"
    using rfind_less [of "CHR ''.''" pre] by simp
  with sep show ?thesis by (simp add: e splitext_def Let_def)
next
  assume "\<exists>rest. ext = CHR ''.'' # rest \<and> CHR ''.'' \<notin> set rest \<and> CHR ''/'' \<notin> set rest"
  then obtain rest where e: "ext = CHR ''.'' # rest"
    and nd: "CHR ''.'' \<notin> set rest" and ns: "CHR ''/'' \<notin> set rest" by blast
  let ?p = "pre @ CHR ''/'' # stem @ CHR ''.'' # rest"
  have sep: "rfind CHR ''/'' ?p = int (length pre)"
    using noslash ns by (intro rfind_split) simp
  have "rfind CHR ''.'' ((pre @ CHR ''/'' # stem) @ CHR ''.'' # rest) =
      int (length (pre @ CHR ''/'' # stem))"
    using nd by (rule rfind_split)
  then have dot: "rfind CHR ''.'' ?p = int (length pre) + 1 + int (length stem)" by simp
  have seg: "take (nat (rfind CHR ''.'' ?p - (rfind CHR ''/'' ?p + 1)))
      (drop (nat (rfind CHR ''/'' ?p + 1)) ?p) = stem"
    by (simp add: sep dot nat_add_distrib)
  have ex: "list_ex (\<lambda>c. c \<noteq> CHR ''.'') stem" by (simp add: stem)
  have tk: "take (nat (rfind CHR ''.'' ?p)) ?p = pre @ CHR ''/'' # stem"
    and dr: "drop (nat (rfind CHR ''.'' ?p)) ?p = CHR ''.'' # rest"
    by (simp_all add: dot nat_add_distrib)
  have lt: "rfind CHR ''/'' ?p < rfind CHR ''.'' ?p" by (simp add: sep dot)
  have "splitext ?p = (pre @ CHR ''/'' # stem, CHR ''.'' # rest)"
    unfolding splitext_def Let_def seg tk dr using lt ex by simp
  then show ?thesis by (simp add: e)
qed

lemma splitext_output:
  assumes "folder \<noteq> []"
  shows "splitext (join folder (output_name s @ snd (splitext ip))) =
    (join folder (output_name s), snd (splitext ip))"
proof -
  obtain pre where j: "join folder (output_name s) = pre @ CHR ''/'' # output_name s"
    and je: "join folder (output_name s @ snd (splitext ip)) =
      pre @ CHR ''/'' # output_name s @ snd (splitext ip)"
    using join_relative [OF assms output_name_hd [of s]] by blast
  obtain t where stem: "output_name s = CHR ''w'' # t" using output_name_hd by blast
  show ?thesis unfolding j je
    using output_name_chars stem splitext_ext by (rule splitext_built)
qed

section \<open>Export\<close>


lemma join_append:
  assumes "folder \<noteq> []"
  shows "join folder (output_name s @ c) = join folder (output_name s) @ c"
proof -
  obtain pre where "join folder (output_name s) = pre @ CHR ''/'' # output_name s"
    and "\<forall>c. join folder (output_name s @ c) = pre @ CHR ''/'' # output_name s @ c"
    using join_relative [OF assms output_name_hd [of s]] by blast
  then show ?thesis by simp
qed

lemma exists_dom: "(\<lambda>p. fs p \<noteq> None) = (\<lambda>q. q \<in> dom fs)"
  by (simp add: dom_def)

lemma unique_output:
  assumes fin: "finite (dom fs)" and folder: "folder \<noteq> []"
  shows "\<exists>p. get_unique_filename (\<lambda>p. fs p \<noteq> None)
             (join folder (output_name s @ snd (splitext ip))) = Some p \<and>
           unique_in (dom fs) (join folder (output_name s)) (snd (splitext ip)) p"
proof -
  let ?base = "join folder (output_name s @ snd (splitext ip))"
  have sp: "splitext ?base = (join folder (output_name s), snd (splitext ip))"
    using folder by (rule splitext_output)
  have base: "?base = join folder (output_name s) @ snd (splitext ip)"
    using folder by (rule join_append)
  from unique_name_found [OF fin, of ?base] obtain p where
    p: "get_unique_filename (\<lambda>q. q \<in> dom fs) ?base = Some p" "p \<notin> dom fs"
    and free: "?base \<notin> dom fs \<longrightarrow> p = ?base"
    and taken: "?base \<in> dom fs \<longrightarrow>
        (\<exists>k\<ge>2. p = numbered_path (fst (splitext ?base)) k (snd (splitext ?base)) \<and>
           (\<forall>j. 2 \<le> j \<and> j < k \<longrightarrow>
              numbered_path (fst (splitext ?base)) j (snd (splitext ?base)) \<in> dom fs))"
    by blast
  have taken': "?base \<in> dom fs \<longrightarrow>
        (\<exists>k\<ge>2. p = numbered_path (join folder (output_name s)) k (snd (splitext ip)) \<and>
           (\<forall>j. 2 \<le> j \<and> j < k \<longrightarrow>
              numbered_path (join folder (output_name s)) j (snd (splitext ip)) \<in> dom fs))"
    using taken by (simp only: sp fst_conv snd_conv)
  have "unique_in (dom fs) (join folder (output_name s)) (snd (splitext ip)) p"
    unfolding unique_in_def base [symmetric] using p(2) free taken' by simp
  with p(1) show ?thesis by (simp only: exists_dom) blast
qed

lemma in_bounds_iff:
  "in_bounds screen img \<longleftrightarrow>
     \<not> (screen_x screen < 0 \<or> screen_y screen < 0 \<or>
        size_w img < screen_x screen + width screen \<or>
        size_h img < screen_y screen + height screen)"
  by (auto simp: in_bounds_def)

text \<open>One pass of the loop body makes one record, and the record tells the new state.\<close>

lemma extract_screen_step:
  assumes fin: "finite (dom (st_files st))" and img: "app_image (st_app st) = Some img"
    and folder: "output_folder \<noteq> []"
  shows "\<exists>st' rec. extract_screen save output_folder r st = Some st' \<and>
     st_app st' = st_app st \<and> result_window st' = result_window st \<and>
     logged st' = logged st @ [rec] \<and>
     record_ok save output_folder (st_app st) img (st_files st) r rec \<and>
     errors st' = errors st @ failures [rec] \<and>
     extracted_count st' = extracted_count st + int (length (successes [rec])) \<and>
     st_files st' = write_record (st_app st) img (st_files st) rec"
proof (cases "in_bounds (objects (st_app st) r) img")
  case False
  let ?rec = "Failed r (boundary_message (objects (st_app st) r))"
  let ?st = "st\<lparr>errors := errors st @ [boundary_message (objects (st_app st) r)],
      logged := logged st @ [?rec]\<rparr>"
  have "extract_screen save output_folder r st = Some ?st"
    using False img by (simp add: extract_screen_def Let_def in_bounds_iff)
  moreover have "record_ok save output_folder (st_app st) img (st_files st) r ?rec"
    using False by (simp add: record_ok_def)
  ultimately show ?thesis by (intro exI [of _ ?st] exI [of _ ?rec]) simp
next
  case True
  let ?screen = "objects (st_app st) r"
  let ?cropped = "crop img (get_box ?screen)"
  let ?ext = "snd (splitext (image_path (st_app st)))"
  obtain p where
    u: "get_unique_filename (\<lambda>p. st_files st p \<noteq> None)
          (join output_folder (output_name ?screen @ ?ext)) = Some p"
    and ok: "unique_in (dom (st_files st)) (join output_folder (output_name ?screen)) ?ext p"
    using unique_output [OF fin folder] by blast
  show ?thesis
  proof (cases "save (st_files st) p ?cropped")
    case None
    let ?rec = "Extracted r p"
    let ?st = "st\<lparr>st_files := (st_files st)(p \<mapsto> ?cropped),
        extracted_count := extracted_count st + 1, logged := logged st @ [?rec]\<rparr>"
    have "extract_screen save output_folder r st = Some ?st"
      using True img u None by (simp add: extract_screen_def Let_def in_bounds_iff)
    moreover have "record_ok save output_folder (st_app st) img (st_files st) r ?rec"
      unfolding record_ok_def Let_def using True ok None by auto
    ultimately show ?thesis by (intro exI [of _ ?st] exI [of _ ?rec]) simp
  next
    case (Some e)
    let ?rec = "Failed r (exception_message ?screen e)"
    let ?st = "st\<lparr>errors := errors st @ [exception_message ?screen e],
        logged := logged st @ [?rec]\<rparr>"
    have "extract_screen save output_folder r st = Some ?st"
      using True img u Some by (simp add: extract_screen_def Let_def in_bounds_iff)
    moreover have "record_ok save output_folder (st_app st) img (st_files st) r ?rec"
      unfolding record_ok_def Let_def using True ok Some by auto
    ultimately show ?thesis by (intro exI [of _ ?st] exI [of _ ?rec]) simp
  qed
qed

lemma failures_Cons: "failures (rec # l) = failures [rec] @ failures l"
  by (cases rec) auto

lemma successes_Cons: "successes (rec # l) = successes [rec] @ successes l"
  by (cases rec) auto

lemma written_Cons: "written (rec # l) = written [rec] \<union> written l"
  by (cases rec) auto

lemma dom_write_record: "dom (write_record app img fs rec) = dom fs \<union> written [rec]"
  by (cases rec) auto

lemma extract_loop_spec:
  assumes "finite (dom (st_files st))" and "app_image (st_app st) = Some img"
    and "output_folder \<noteq> []"
  shows "\<exists>st' new. extract_loop save output_folder rs st = Some st' \<and>
     st_app st' = st_app st \<and> result_window st' = result_window st \<and>
     logged st' = logged st @ new \<and>
     records_ok save output_folder (st_app st) img (st_files st) rs new \<and>
     errors st' = errors st @ failures new \<and>
     extracted_count st' = extracted_count st + int (length (successes new)) \<and>
     st_files st' = files_after (st_app st) img (st_files st) new"
  using assms
proof (induction rs arbitrary: st)
  case Nil
  show ?case by (intro exI [of _ st] exI [of _ "[]"]) (simp add: files_after_def)
next
  case (Cons r rs)
  obtain st1 rec where s1: "extract_screen save output_folder r st = Some st1"
    and a1: "st_app st1 = st_app st" and w1: "result_window st1 = result_window st"
    and l1: "logged st1 = logged st @ [rec]"
    and ok1: "record_ok save output_folder (st_app st) img (st_files st) r rec"
    and e1: "errors st1 = errors st @ failures [rec]"
    and c1: "extracted_count st1 = extracted_count st + int (length (successes [rec]))"
    and f1: "st_files st1 = write_record (st_app st) img (st_files st) rec"
    using extract_screen_step [OF Cons.prems, of save r] by blast
  have fin1: "finite (dom (st_files st1))"
    using Cons.prems(1) unfolding f1 dom_write_record by (cases rec) simp_all
  have img1: "app_image (st_app st1) = Some img" using Cons.prems(2) a1 by simp
  obtain st' new where s': "extract_loop save output_folder rs st1 = Some st'"
    and a': "st_app st' = st_app st1" and w': "result_window st' = result_window st1"
    and l': "logged st' = logged st1 @ new"
    and ok': "records_ok save output_folder (st_app st1) img (st_files st1) rs new"
    and e': "errors st' = errors st1 @ failures new"
    and c': "extracted_count st' = extracted_count st1 + int (length (successes new))"
    and f': "st_files st' = files_after (st_app st1) img (st_files st1) new"
    using Cons.IH [OF fin1 img1 Cons.prems(3)] by blast
  have "extract_loop save output_folder (r # rs) st = Some st'" using s1 s' by simp
  moreover have "st_app st' = st_app st" "result_window st' = result_window st"
    using a' a1 w' w1 by simp_all
  moreover have "logged st' = logged st @ rec # new" using l' l1 by simp
  moreover have "records_ok save output_folder (st_app st) img (st_files st) (r # rs)
      (rec # new)"
    using ok1 ok' unfolding a1 f1 by simp
  moreover have "errors st' = errors st @ failures (rec # new)"
    using e' e1 failures_Cons [of rec new] by simp
  moreover have "extracted_count st' = extracted_count st + int (length (successes (rec # new)))"
    using c' c1 successes_Cons [of rec new] by simp
  moreover have "st_files st' = files_after (st_app st) img (st_files st) (rec # new)"
    using f' unfolding a1 f1 by (simp add: files_after_def)
  ultimately show ?case by blast
qed

lemma dom_files_after: "dom (files_after app img fs recs) = dom fs \<union> written recs"
proof (induction recs arbitrary: fs)
  case Nil
  show ?case by (simp add: files_after_def)
next
  case (Cons rec recs)
  have "files_after app img fs (rec # recs) = files_after app img (write_record app img fs rec) recs"
    by (simp add: files_after_def)
  then show ?case
    using Cons.IH [of "write_record app img fs rec"] written_Cons [of rec recs]
    by (simp add: dom_write_record) blast
qed

text \<open>What the records say about the files.\<close>

lemma record_ok_fresh:
  "record_ok save output_folder app img fs r (Extracted q p) \<Longrightarrow> q = r \<and> p \<notin> dom fs"
  by (auto simp: record_ok_def unique_in_def Let_def split: if_splits option.splits)

lemma records_ok_files:
  "records_ok save output_folder app img fs rs recs \<Longrightarrow>
   fs \<subseteq>\<^sub>m files_after app img fs recs \<and>
   dom (files_after app img fs recs) = dom fs \<union> written recs \<and>
   (\<forall>(r, p) \<in> set (successes recs).
      files_after app img fs recs p = Some (crop img (get_box (objects app r))))"
proof (induction rs arbitrary: fs recs)
  case Nil
  then show ?case by (simp add: files_after_def)
next
  case (Cons r rs)
  then obtain rec recs' where recs: "recs = rec # recs'" by (cases recs) auto
  let ?fs = "write_record app img fs rec"
  from Cons.prems have h: "record_ok save output_folder app img fs r rec"
    and t: "records_ok save output_folder app img ?fs rs recs'"
    by (simp_all add: recs)
  from Cons.IH [OF t] have le: "?fs \<subseteq>\<^sub>m files_after app img ?fs recs'"
    and d: "dom (files_after app img ?fs recs') = dom ?fs \<union> written recs'"
    and v: "\<forall>(r, p) \<in> set (successes recs').
      files_after app img ?fs recs' p = Some (crop img (get_box (objects app r)))"
    by simp_all
  have fa: "files_after app img fs recs = files_after app img ?fs recs'"
    by (simp add: files_after_def recs)
  have su: "set (successes recs) = set (successes [rec]) \<union> set (successes recs')"
    unfolding recs using successes_Cons [of rec recs'] by simp
  have le1: "fs \<subseteq>\<^sub>m ?fs"
  proof (cases rec)
    case (Extracted q p)
    with h have "p \<notin> dom fs" using record_ok_fresh by blast
    then show ?thesis unfolding Extracted by (simp add: map_le_def)
  next
    case (Failed q m)
    then show ?thesis by simp
  qed
  have first: "files_after app img ?fs recs' p = Some (crop img (get_box (objects app q)))"
    if "(q, p) \<in> set (successes [rec])" for q p
  proof -
    from that have rec: "rec = Extracted q p" by (cases rec) auto
    then have "?fs p = Some (crop img (get_box (objects app q)))" by simp
    moreover have "p \<in> dom ?fs" unfolding rec by simp
    ultimately show ?thesis using le by (simp add: map_le_def)
  qed
  have "fs \<subseteq>\<^sub>m files_after app img fs recs"
    unfolding fa using le1 le by (rule map_le_trans)
  moreover have "dom (files_after app img fs recs) = dom fs \<union> written recs"
    by (rule dom_files_after)
  moreover have "\<forall>(r, p) \<in> set (successes recs).
      files_after app img fs recs p = Some (crop img (get_box (objects app r)))"
    unfolding fa su using first v by auto
  ultimately show ?case by blast
qed

lemma records_ok_nth:
  "records_ok save output_folder app img fs rs recs \<Longrightarrow>
   length recs = length rs \<and>
   (\<forall>k<length rs. record_ok save output_folder app img
      (files_after app img fs (take k recs)) (rs ! k) (recs ! k))"
proof (induction rs arbitrary: fs recs)
  case Nil
  then show ?case by simp
next
  case (Cons r rs)
  then obtain rec recs' where recs: "recs = rec # recs'" by (cases recs) auto
  let ?fs = "write_record app img fs rec"
  from Cons.prems have h: "record_ok save output_folder app img fs r rec"
    and t: "records_ok save output_folder app img ?fs rs recs'"
    by (simp_all add: recs)
  from Cons.IH [OF t] have len: "length recs' = length rs"
    and ih: "\<And>k. k < length rs \<Longrightarrow>
      record_ok save output_folder app img (files_after app img ?fs (take k recs'))
        (rs ! k) (recs' ! k)"
    by simp_all
  have "record_ok save output_folder app img (files_after app img fs (take k recs))
      ((r # rs) ! k) (recs ! k)" if "k < length (r # rs)" for k
  proof (cases k)
    case 0
    with h show ?thesis by (simp add: recs files_after_def)
  next
    case (Suc m)
    with that have "m < length rs" by simp
    from ih [OF this] show ?thesis by (simp add: recs Suc files_after_def)
  qed
  with len show ?case by (simp add: recs)
qed

lemma successes_nth:
  "k < length recs \<Longrightarrow> recs ! k = Extracted r p \<Longrightarrow> (r, p) \<in> set (successes recs)"
proof (induction recs arbitrary: k)
  case Nil
  then show ?case by simp
next
  case (Cons a recs)
  show ?case
  proof (cases k)
    case 0
    with Cons.prems show ?thesis by simp
  next
    case (Suc m)
    with Cons.prems have "(r, p) \<in> set (successes recs)" by (intro Cons.IH [of m]) simp_all
    then show ?thesis by (cases a) simp_all
  qed
qed

lemma extract_all_spec:
  assumes fin: "finite (dom files)" and img: "app_image app = Some img"
    and scr: "screens app \<noteq> []" and folder: "output_folder \<noteq> []"
  shows "\<exists>st. extract_all save output_folder app files = Some st \<and>
     st_app st = app \<and>
     result_window st = Some (result_texts (extracted_count st) (errors st) output_folder) \<and>
     records_ok save output_folder app img files (screens app) (logged st) \<and>
     errors st = failures (logged st) \<and>
     extracted_count st = int (length (successes (logged st))) \<and>
     st_files st = files_after app img files (logged st)"
proof -
  let ?st0 = "\<lparr>st_app = app, st_files = files, extracted_count = 0, errors = [],
      logged = [], result_window = None\<rparr>"
  have "finite (dom (st_files ?st0))" "app_image (st_app ?st0) = Some img"
    using fin img by simp_all
  from extract_loop_spec [OF this folder, of save "screens app"]
  obtain st' new where l: "extract_loop save output_folder (screens app) ?st0 = Some st'"
    and p: "st_app st' = app" "logged st' = new"
      "records_ok save output_folder app img files (screens app) new"
      "errors st' = failures new"
      "extracted_count st' = int (length (successes new))"
      "st_files st' = files_after app img files new"
    by auto
  let ?st = "st'\<lparr>result_window :=
      Some (result_texts (extracted_count st') (errors st') output_folder)\<rparr>"
  have "extract_all save output_folder app files = Some ?st"
    using img scr folder l by (simp add: extract_all_def Let_def)
  with p show ?thesis by (intro exI [of _ ?st]) simp
qed

lemma extract_all_returns:
  assumes "finite (dom files)"
  shows "\<exists>st. extract_all save output_folder app files = Some st \<and> st_app st = app"
proof (cases "app_image app = None \<or> screens app = [] \<or> output_folder = []")
  case True
  then show ?thesis by (auto simp: extract_all_def Let_def)
next
  case False
  then obtain img where "app_image app = Some img" "screens app \<noteq> []" "output_folder \<noteq> []"
    by auto
  from extract_all_spec [OF assms this] show ?thesis by blast
qed


lemmas export_eval = extract_all_def extract_screen_def example_app_def example_files_def
  example_image_def always_saves_def init_app_def new_screen_def Let_def
  get_unique_filename_def splitext_def rfind_def join_def output_name_def
  boundary_message_def exception_message_def numbered_path_def str_int_def digit_def
  get_box_def result_texts_def suffixless_app_def suffix_saver_def

lemma example_run:
  "\<exists>st. extract_all always_saves ''/out'' example_app example_files = Some st \<and>
     logged st = [Extracted 0 ''/out/wallpaper_screen_16-9_2.png'',
               Failed 1 ''Screen 2 exceeds image boundaries''] \<and>
     extracted_count st = 1 \<and>
     errors st = [''Screen 2 exceeds image boundaries'']"
  by (simp add: export_eval unique_loop.simps)

lemma example_hyps:
  "finite (dom example_files)" "app_image example_app = Some example_image"
  "screens example_app \<noteq> []" "''/out'' \<noteq> []"
  by (simp_all add: example_files_def example_app_def)

text \<open>
  C8. On a file system with finitely many paths \<open>extract_all\<close> returns, and the
  application it leaves is the one it found: the image with its pixels, the screen list
  and every field of every screen.
\<close>

theorem extract_all_keeps_app:
  assumes "finite (dom files)"
  shows "\<exists>st. extract_all save output_folder app files = Some st \<and> st_app st = app"
  using assms by (rule extract_all_returns)

text \<open>The export of the example leaves the example as it was.\<close>

theorem extract_all_keeps_app_witness:
  "finite (dom example_files) \<and>
   (\<exists>st. extract_all always_saves ''/out'' example_app example_files = Some st \<and>
      st_app st = example_app)"
  using extract_all_keeps_app [OF example_hyps(1), of always_saves "''/out''" example_app] example_hyps(1)
  by simp

text \<open>
  C4. Every file that the export writes goes to the path
  \<open>wallpaper_screen_{ratio_w}-{ratio_h}{extension}\<close> in the output folder when nothing
  exists there, among the files found and those written before it, and otherwise to the
  path with the least suffix \<open>_2\<close>, \<open>_3\<close>, ... before the extension that does not exist.
  The file holds the crop of the screen at the end, and every file found keeps its content.
\<close>

theorem export_paths_unique:
  assumes "finite (dom files)" and "app_image app = Some img"
    and "screens app \<noteq> []" and "output_folder \<noteq> []"
  shows "\<exists>st. extract_all save output_folder app files = Some st \<and>
     files \<subseteq>\<^sub>m st_files st \<and>
     (\<forall>k<length (logged st). \<forall>r p. logged st ! k = Extracted r p \<longrightarrow>
        unique_in (dom files \<union> written (take k (logged st)))
          (join output_folder (output_name (objects app r)))
          (snd (splitext (image_path app))) p \<and>
        st_files st p = Some (crop img (get_box (objects app r))))"
proof -
  from extract_all_spec [OF assms, of save] obtain st where
    st: "extract_all save output_folder app files = Some st"
    and ok: "records_ok save output_folder app img files (screens app) (logged st)"
    and f: "st_files st = files_after app img files (logged st)"
    by blast
  from records_ok_files [OF ok] have le: "files \<subseteq>\<^sub>m st_files st"
    and v: "\<forall>(r, p) \<in> set (successes (logged st)).
        st_files st p = Some (crop img (get_box (objects app r)))"
    unfolding f by simp_all
  from records_ok_nth [OF ok] have len: "length (logged st) = length (screens app)"
    and nth: "\<And>k. k < length (screens app) \<Longrightarrow>
      record_ok save output_folder app img (files_after app img files (take k (logged st)))
        (screens app ! k) (logged st ! k)"
    by simp_all
  have "unique_in (dom files \<union> written (take k (logged st)))
          (join output_folder (output_name (objects app r)))
          (snd (splitext (image_path app))) p \<and>
        st_files st p = Some (crop img (get_box (objects app r)))"
    if k: "k < length (logged st)" and e: "logged st ! k = Extracted r p" for k r p
  proof -
    from k len have "k < length (screens app)" by simp
    from nth [OF this] have
      "record_ok save output_folder app img (files_after app img files (take k (logged st)))
        (screens app ! k) (Extracted r p)" unfolding e .
    then have "unique_in (dom (files_after app img files (take k (logged st))))
          (join output_folder (output_name (objects app r)))
          (snd (splitext (image_path app))) p"
      by (auto simp: record_ok_def Let_def split: if_splits option.splits)
    moreover have "st_files st p = Some (crop img (get_box (objects app r)))"
      using v successes_nth [OF k e] by auto
    ultimately show ?thesis by (simp add: dom_files_after)
  qed
  with st le show ?thesis by blast
qed

text \<open>
  With \<open>wallpaper_screen_16-9.png\<close> in the output folder, the first screen of the example
  goes to \<open>wallpaper_screen_16-9_2.png\<close>.
\<close>

theorem export_paths_unique_witness:
  "finite (dom example_files) \<and> app_image example_app = Some example_image \<and>
   screens example_app \<noteq> [] \<and> ''/out'' \<noteq> [] \<and>
   (\<exists>st. extract_all always_saves ''/out'' example_app example_files = Some st \<and>
      example_files \<subseteq>\<^sub>m st_files st \<and>
      logged st = [Extracted 0 ''/out/wallpaper_screen_16-9_2.png'',
                Failed 1 ''Screen 2 exceeds image boundaries''])"
  using export_paths_unique [OF example_hyps, of always_saves] example_run example_hyps
  by auto

text \<open>
  C5. The export makes one record for every screen, in the order of the list. A screen
  that leaves the image gets the boundary failure. A screen inside the image is cropped
  and given its free path; when the save on the files present at that moment raises
  nothing the record is the path and the file holds the crop at the end, and when it
  raises the record is a failure with the message of the exception. The files at the end
  are the files found and the crops of the records that name a path. The count is the
  number of those records, \<open>errors\<close> holds the messages of the failures in order, and
  the result window shows both.
\<close>

theorem export_records:
  assumes "finite (dom files)" and "app_image app = Some img"
    and "screens app \<noteq> []" and "output_folder \<noteq> []"
  shows "\<exists>st. extract_all save output_folder app files = Some st \<and>
     length (logged st) = length (screens app) \<and>
     errors st = failures (logged st) \<and>
     extracted_count st = int (length (successes (logged st))) \<and>
     result_window st = Some (result_texts (extracted_count st) (errors st) output_folder) \<and>
     st_files st = files_after app img files (logged st) \<and>
     (\<forall>k<length (screens app).
        let r = screens app ! k;
            screen = objects app r;
            cropped = crop img (get_box screen);
            fs = files_after app img files (take k (logged st))
        in if \<not> in_bounds screen img
           then logged st ! k = Failed r (boundary_message screen)
           else \<exists>p. unique_in (dom fs) (join output_folder (output_name screen))
                       (snd (splitext (image_path app))) p \<and>
                    (case save fs p cropped of
                       None \<Rightarrow> logged st ! k = Extracted r p \<and> st_files st p = Some cropped
                     | Some e \<Rightarrow> logged st ! k = Failed r (exception_message screen e)))"
proof -
  from extract_all_spec [OF assms, of save] obtain st where
    st: "extract_all save output_folder app files = Some st"
    and w: "result_window st = Some (result_texts (extracted_count st) (errors st) output_folder)"
    and ok: "records_ok save output_folder app img files (screens app) (logged st)"
    and e: "errors st = failures (logged st)"
    and c: "extracted_count st = int (length (successes (logged st)))"
    and f: "st_files st = files_after app img files (logged st)"
    by blast
  from records_ok_files [OF ok] have
    v: "\<forall>(r, p) \<in> set (successes (logged st)).
        st_files st p = Some (crop img (get_box (objects app r)))"
    unfolding f by simp
  from records_ok_nth [OF ok] have len: "length (logged st) = length (screens app)"
    and nth: "\<And>k. k < length (screens app) \<Longrightarrow>
      record_ok save output_folder app img (files_after app img files (take k (logged st)))
        (screens app ! k) (logged st ! k)"
    by simp_all
  have each: "let r = screens app ! k;
            screen = objects app r;
            cropped = crop img (get_box screen);
            fs = files_after app img files (take k (logged st))
        in if \<not> in_bounds screen img
           then logged st ! k = Failed r (boundary_message screen)
           else \<exists>p. unique_in (dom fs) (join output_folder (output_name screen))
                       (snd (splitext (image_path app))) p \<and>
                    (case save fs p cropped of
                       None \<Rightarrow> logged st ! k = Extracted r p \<and> st_files st p = Some cropped
                     | Some e \<Rightarrow> logged st ! k = Failed r (exception_message screen e))"
    if k: "k < length (screens app)" for k
  proof -
    from k len have kl: "k < length (logged st)" by simp
    have content: "st_files st p = Some (crop img (get_box (objects app (screens app ! k))))"
      if "logged st ! k = Extracted (screens app ! k) p" for p
      using v successes_nth [OF kl that] by auto
    show ?thesis
    proof (cases "in_bounds (objects app (screens app ! k)) img")
      case False
      with nth [OF k] show ?thesis by (simp add: record_ok_def Let_def)
    next
      case True
      with nth [OF k] obtain p where
        u: "unique_in (dom (files_after app img files (take k (logged st))))
              (join output_folder (output_name (objects app (screens app ! k))))
              (snd (splitext (image_path app))) p"
        and c: "case save (files_after app img files (take k (logged st))) p
                   (crop img (get_box (objects app (screens app ! k)))) of
                  None \<Rightarrow> logged st ! k = Extracted (screens app ! k) p
                | Some e \<Rightarrow> logged st ! k =
                    Failed (screens app ! k)
                      (exception_message (objects app (screens app ! k)) e)"
        unfolding record_ok_def Let_def by auto
      from c content [of p] have
        "case save (files_after app img files (take k (logged st))) p
                   (crop img (get_box (objects app (screens app ! k)))) of
           None \<Rightarrow> logged st ! k = Extracted (screens app ! k) p \<and>
             st_files st p = Some (crop img (get_box (objects app (screens app ! k))))
         | Some e \<Rightarrow> logged st ! k =
             Failed (screens app ! k) (exception_message (objects app (screens app ! k)) e)"
        by (simp split: option.splits)
      with u have
        "\<exists>p. unique_in (dom (files_after app img files (take k (logged st))))
              (join output_folder (output_name (objects app (screens app ! k))))
              (snd (splitext (image_path app))) p \<and>
          (case save (files_after app img files (take k (logged st))) p
                   (crop img (get_box (objects app (screens app ! k)))) of
           None \<Rightarrow> logged st ! k = Extracted (screens app ! k) p \<and>
             st_files st p = Some (crop img (get_box (objects app (screens app ! k))))
         | Some e \<Rightarrow> logged st ! k =
             Failed (screens app ! k) (exception_message (objects app (screens app ! k)) e))"
        by blast
      with True show ?thesis unfolding Let_def by simp
    qed
  qed
  from st len e c w f each show ?thesis by blast
qed

text \<open>
  In the example the first screen is saved and the second, which leaves the image, gets
  the boundary failure.
\<close>

theorem export_records_witness:
  "finite (dom example_files) \<and> app_image example_app = Some example_image \<and>
   screens example_app \<noteq> [] \<and> ''/out'' \<noteq> [] \<and>
   (\<exists>st. extract_all always_saves ''/out'' example_app example_files = Some st \<and>
      logged st = [Extracted 0 ''/out/wallpaper_screen_16-9_2.png'',
                Failed 1 ''Screen 2 exceeds image boundaries''] \<and>
      extracted_count st = 1 \<and>
      errors st = [''Screen 2 exceeds image boundaries''])"
  using export_records [OF example_hyps, of always_saves] example_run example_hyps
  by auto

text \<open>
  A screen inside the image is not saved when the save raises: the wallpaper without a
  suffix gives the first screen a failure and writes no file.
\<close>

theorem export_save_failure:
  "in_bounds (objects suffixless_app 0) example_image \<and>
   map_option logged (extract_all suffix_saver ''/out'' suffixless_app example_files) =
     Some [Failed 0 ''Error screen 1: unknown file extension: '',
           Failed 1 ''Screen 2 exceeds image boundaries''] \<and>
   map_option extracted_count (extract_all suffix_saver ''/out'' suffixless_app example_files) =
     Some 0 \<and>
   map_option st_files (extract_all suffix_saver ''/out'' suffixless_app example_files) =
     Some example_files"
  by (simp add: export_eval in_bounds_def unique_loop.simps)

end
